theory Spec2Isabelle
  imports Main "HOL-Library.Word"
begin

unbundle bit_operations_syntax

section \<open>Data model\<close>

text \<open>
  The repository holds two versions of one OBJ viewer. Both define \<open>loadOBJ\<close>: the
  textured viewer builds an indexed mesh with shared vertices, the plain viewer
  (\<open>main.cpp\<close>) a flat list of corners. Here the indexed loader keeps the name
  \<open>loadOBJ\<close> and the flat one is \<open>loadOBJ_flat\<close>.

  A C \<open>float\<close> is modelled by its 32-bit pattern: the loaders only copy floats and
  compare them bytewise, they never compute with them. \<open>0.f\<close> is the pattern \<open>0\<close> and
  \<open>1.f\<close> is \<open>0x3F800000\<close>.
\<close>

type_synonym float = "32 word"

record vec2 =
  x :: float
  y :: float

record vec3 =
  x :: float
  y :: float
  z :: float

text \<open>
  The parser's output types (\<open>tiny_obj_loader.h\<close>), as far as the loaders read them.
  The three indices of a corner are C \<open>int\<close>s; \<open>-1\<close> marks an absent attribute.
  The face sizes have an unsigned element type and are taken as naturals.
\<close>

record index_t =
  vertex_index :: "32 word"
  normal_index :: "32 word"
  texcoord_index :: "32 word"

record attrib_t =
  vertices :: "float list"
  normals :: "float list"
  texcoords :: "float list"

record mesh_t =
  indices :: "index_t list"
  num_face_vertices :: "nat list"

record shape_t =
  mesh :: mesh_t

record Vertex =
  position :: vec3
  normal :: vec3
  texcoords :: vec2

text \<open>
  The two heap arrays of a \<open>Mesh\<close> are modelled by their contents. \<open>Mesh_flat\<close> is the
  \<open>Mesh\<close> struct of \<open>main.cpp\<close>, which has no index array.
\<close>

record Mesh =
  vertices :: "Vertex list"
  indices :: "32 word list"
  vertexCount :: "32 word"
  indexCount :: "32 word"

record Mesh_flat =
  vertices :: "Vertex list"
  vertexCount :: "32 word"

section \<open>Failures\<close>

text \<open>
  A \<open>throw std::runtime_error(msg)\<close> is the value \<open>runtime_error msg\<close>. The loaders
  index vectors with the unchecked \<open>operator[]\<close>; an access outside the vector raises
  nothing, it is undefined behaviour: the program goes on with whatever it has read,
  and nothing is promised of what it returns. The model marks such a run with \<open>UB\<close> and
  the kind of fault and follows it no further. So \<open>UB\<close> is not a way in which a load
  ends; it says that the behaviour of the code is not defined from there on.
\<close>

datatype undefined_behaviour = out_of_bounds_read | out_of_bounds_write | signed_overflow

datatype failure = runtime_error string | UB undefined_behaviour

fun and_then :: "failure + 'a \<Rightarrow> ('a \<Rightarrow> failure + 'b) \<Rightarrow> failure + 'b" where
  "and_then (Inl e) f = Inl e"
| "and_then (Inr v) f = f v"

fun raises :: "failure + 'a \<Rightarrow> bool" where
  "raises (Inl (runtime_error msg)) = True"
| "raises (Inl (UB u)) = False"
| "raises (Inr v) = False"

text \<open>\<open>xs[n]\<close> on a \<open>std::vector\<close>, \<open>n\<close> a \<open>size_t\<close>.\<close>

definition at :: "'a list \<Rightarrow> nat \<Rightarrow> failure + 'a" where
  "at xs n = (if n < length xs then Inr (xs ! n) else Inl (UB out_of_bounds_read))"

text \<open>
  The subscript \<open>n * i + k\<close> of an attribute array is computed in \<open>int\<close>, where
  overflow is undefined, and then converted to \<open>size_t\<close>. A negative \<open>int\<close> becomes a
  \<open>size_t\<close> of at least \<open>2^64 - 2^31\<close>, which is beyond the end of any vector.
\<close>

definition int_range :: "int \<Rightarrow> bool" where
  "int_range i \<longleftrightarrow> - 2147483648 \<le> i \<and> i \<le> 2147483647"

definition subscript :: "int \<Rightarrow> 32 word \<Rightarrow> int \<Rightarrow> failure + nat" where
  "subscript n i k =
     (if \<not> int_range (n * sint i) then Inl (UB signed_overflow)
      else if \<not> int_range (n * sint i + k) then Inl (UB signed_overflow)
      else if n * sint i + k < 0 then Inl (UB out_of_bounds_read)
      else Inr (nat (n * sint i + k)))"

definition component :: "float list \<Rightarrow> int \<Rightarrow> 32 word \<Rightarrow> int \<Rightarrow> failure + float" where
  "component xs n i k = and_then (subscript n i k) (at xs)"

definition read_vec3 :: "float list \<Rightarrow> 32 word \<Rightarrow> failure + vec3" where
  "read_vec3 xs i =
     and_then (component xs 3 i 0) (\<lambda>a.
     and_then (component xs 3 i 1) (\<lambda>b.
     and_then (component xs 3 i 2) (\<lambda>c.
       Inr \<lparr>vec3.x = a, y = b, z = c\<rparr>)))"

definition read_vec2 :: "float list \<Rightarrow> 32 word \<Rightarrow> failure + vec2" where
  "read_vec2 xs i =
     and_then (component xs 2 i 0) (\<lambda>a.
     and_then (component xs 2 i 1) (\<lambda>b.
       Inr \<lparr>vec2.x = a, y = b\<rparr>))"

section \<open>Vertex equality and hash\<close>

text \<open>
  \<open>Vertex::operator==\<close> is \<open>memcmp(this, &other, sizeof(Vertex)) == 0\<close>. A \<open>Vertex\<close> is
  eight floats of four bytes each with no padding between them, 32 bytes in all; the
  bytes of a float are taken in little-endian order.
\<close>

definition bytes_of_float :: "float \<Rightarrow> 8 word list" where
  "bytes_of_float w = map (\<lambda>k. ucast (drop_bit (8 * k) w)) [0..<4]"

definition bytes_of_vec3 :: "vec3 \<Rightarrow> 8 word list" where
  "bytes_of_vec3 v = bytes_of_float (vec3.x v) @ bytes_of_float (vec3.y v) @ bytes_of_float (vec3.z v)"

definition bytes_of_vec2 :: "vec2 \<Rightarrow> 8 word list" where
  "bytes_of_vec2 v = bytes_of_float (vec2.x v) @ bytes_of_float (vec2.y v)"

definition bytes_of_Vertex :: "Vertex \<Rightarrow> 8 word list" where
  "bytes_of_Vertex v =
     bytes_of_vec3 (position v) @ bytes_of_vec3 (normal v) @ bytes_of_vec2 (Vertex.texcoords v)"

definition sizeof_Vertex :: nat where
  "sizeof_Vertex = 32"

text \<open>
  \<open>memcmp\<close> compares the first \<open>n\<close> bytes as unsigned values and returns the sign of
  the first difference. Its callers pass an \<open>n\<close> within both objects.
\<close>

fun memcmp :: "8 word list \<Rightarrow> 8 word list \<Rightarrow> nat \<Rightarrow> int" where
  "memcmp (a # as) (b # bs) (Suc n) =
     (if a = b then memcmp as bs n else if a < b then - 1 else 1)"
| "memcmp as bs n = 0"

definition operator_eq :: "Vertex \<Rightarrow> Vertex \<Rightarrow> bool" where
  "operator_eq this other \<longleftrightarrow>
     memcmp (bytes_of_Vertex this) (bytes_of_Vertex other) sizeof_Vertex = 0"

text \<open>
  \<open>std::hash<Vertex>\<close>, over the library's \<open>std::hash<float>\<close>, which is a parameter
  here. The hash only chooses the bucket of the \<open>unordered_map\<close>; which keys count as
  the same is decided by \<open>operator==\<close>.
\<close>

definition hash_Vertex :: "(float \<Rightarrow> 64 word) \<Rightarrow> Vertex \<Rightarrow> 64 word" where
  "hash_Vertex hash_float v =
     (let h1 = hash_float (vec3.x (position v)) XOR hash_float (vec3.y (position v))
                 XOR hash_float (vec3.z (position v));
          h2 = hash_float (vec3.x (normal v)) XOR hash_float (vec3.y (normal v))
                 XOR hash_float (vec3.z (normal v));
          h3 = hash_float (vec2.x (Vertex.texcoords v)) XOR hash_float (vec2.y (Vertex.texcoords v))
      in h1 XOR push_bit 1 h2 XOR push_bit 2 h3)"

section \<open>The map of seen vertices\<close>

text \<open>
  \<open>std::unordered_map<Vertex, uint32_t>\<close> as a list of entries, searched with
  \<open>operator==\<close>. \<open>count\<close> is the number of entries under a key. \<open>m[k] = v\<close> overwrites
  the entry of \<open>k\<close> or adds one; reading \<open>m[k]\<close> returns the value and, for a key that
  is not there, adds it with the value \<open>0\<close>.
\<close>

type_synonym umap = "(Vertex \<times> 32 word) list"

definition umap_find :: "umap \<Rightarrow> Vertex \<Rightarrow> (Vertex \<times> 32 word) option" where
  "umap_find m k = find (\<lambda>e. operator_eq (fst e) k) m"

definition umap_count :: "umap \<Rightarrow> Vertex \<Rightarrow> nat" where
  "umap_count m k = (case umap_find m k of None \<Rightarrow> 0 | Some e \<Rightarrow> 1)"

definition umap_assign :: "umap \<Rightarrow> Vertex \<Rightarrow> 32 word \<Rightarrow> umap" where
  "umap_assign m k v =
     (case umap_find m k of
        None \<Rightarrow> m @ [(k, v)]
      | Some e \<Rightarrow> map (\<lambda>e. if operator_eq (fst e) k then (fst e, v) else e) m)"

definition umap_get :: "umap \<Rightarrow> Vertex \<Rightarrow> 32 word \<times> umap" where
  "umap_get m k =
     (case umap_find m k of
        None \<Rightarrow> (0, m @ [(k, 0)])
      | Some e \<Rightarrow> (snd e, m))"

section \<open>The indexed loader\<close>

text \<open>Counted loops whose body may fail: the first failure ends the loop.\<close>

primrec for_each :: "'i list \<Rightarrow> ('i \<Rightarrow> 's \<Rightarrow> failure + 's) \<Rightarrow> 's \<Rightarrow> failure + 's" where
  "for_each [] body s = Inr s"
| "for_each (i # is) body s = and_then (body i s) (for_each is body)"

text \<open>The resolution of one corner into a \<open>Vertex\<close>, with the fallback normal \<open>(0, 0, 1)\<close>.\<close>

definition corner :: "attrib_t \<Rightarrow> index_t \<Rightarrow> failure + Vertex" where
  "corner attrib idx =
     and_then (read_vec3 (attrib_t.vertices attrib) (vertex_index idx)) (\<lambda>p.
     and_then (if attrib_t.normals attrib \<noteq> [] \<and> 0 \<le> sint (normal_index idx)
               then read_vec3 (attrib_t.normals attrib) (normal_index idx)
               else Inr \<lparr>vec3.x = 0, y = 0, z = 0x3F800000\<rparr>) (\<lambda>n.
     and_then (if attrib_t.texcoords attrib \<noteq> [] \<and> 0 \<le> sint (texcoord_index idx)
               then read_vec2 (attrib_t.texcoords attrib) (texcoord_index idx)
               else Inr \<lparr>vec2.x = 0, y = 0\<rparr>) (\<lambda>t.
       Inr \<lparr>position = p, normal = n, texcoords = t\<rparr>)))"

text \<open>
  The local variables \<open>vertices\<close>, \<open>indices\<close> and \<open>uniqueVertices\<close> (the first two are
  \<open>verts\<close> and \<open>inds\<close> below), and what the loop does with a resolved corner.
\<close>

type_synonym locals = "Vertex list \<times> 32 word list \<times> umap"

definition add_corner :: "Vertex \<Rightarrow> locals \<Rightarrow> locals" where
  "add_corner vertex = (\<lambda>(verts, inds, uniqueVertices).
     let (verts1, unique1) =
           (if umap_count uniqueVertices vertex = 0
            then (verts @ [vertex],
                  umap_assign uniqueVertices vertex (of_nat (length verts)))
            else (verts, uniqueVertices));
         (i, unique2) = umap_get unique1 vertex
     in (verts1, inds @ [i], unique2))"

definition corner_body :: "attrib_t \<Rightarrow> shape_t \<Rightarrow> nat \<Rightarrow> nat \<Rightarrow> locals \<Rightarrow> failure + locals" where
  "corner_body attrib shape index_offset v st =
     and_then (at (mesh_t.indices (mesh shape)) (index_offset + v)) (\<lambda>idx.
     and_then (corner attrib idx) (\<lambda>vertex.
       Inr (add_corner vertex st)))"

definition face_body :: "attrib_t \<Rightarrow> shape_t \<Rightarrow> nat \<Rightarrow> nat \<times> locals \<Rightarrow> failure + nat \<times> locals" where
  "face_body attrib shape f = (\<lambda>(index_offset, st).
     and_then (for_each [0..<3] (corner_body attrib shape index_offset) st) (\<lambda>st'.
       Inr (index_offset + 3, st')))"

definition shape_body :: "attrib_t \<Rightarrow> shape_t \<Rightarrow> locals \<Rightarrow> failure + locals" where
  "shape_body attrib shape st =
     and_then (for_each [0..<length (num_face_vertices (mesh shape))]
                 (face_body attrib shape) (0, st)) (\<lambda>(index_offset, st').
       Inr st')"

text \<open>
  The copy into the arrays allocated with the truncated 32-bit counts: \<open>std::copy\<close>
  writes every element of the vector, so it writes past an array that is shorter.
\<close>

definition make_mesh :: "Vertex list \<Rightarrow> 32 word list \<Rightarrow> failure + Mesh" where
  "make_mesh verts inds =
     (let vcount = (of_nat (length verts) :: 32 word);
          icount = (of_nat (length inds) :: 32 word)
      in if unat vcount < length verts \<or> unat icount < length inds
         then Inl (UB out_of_bounds_write)
         else Inr \<lparr>Mesh.vertices = verts, indices = inds,
                   vertexCount = vcount, indexCount = icount\<rparr>)"

text \<open>
  The argument is what \<open>reader.ParseFromFile\<close> delivered: \<open>None\<close> when it returned
  false, else the attribute arrays and the shapes.
\<close>

definition loadOBJ :: "(attrib_t \<times> shape_t list) option \<Rightarrow> failure + Mesh" where
  "loadOBJ parsed =
     (case parsed of
        None \<Rightarrow> Inl (runtime_error ''Failed to load OBJ'')
      | Some (attrib, shapes) \<Rightarrow>
          and_then (for_each shapes (shape_body attrib) ([], [], []))
            (\<lambda>(verts, inds, uniqueVertices). make_mesh verts inds))"

section \<open>The flat loader\<close>

text \<open>
  \<open>loadOBJ\<close> of \<open>main.cpp\<close>: every face size is checked, the fallback normal is
  \<open>(0, 0, 0)\<close>, and each resolved corner is appended as it comes.
\<close>

definition corner_flat :: "attrib_t \<Rightarrow> index_t \<Rightarrow> failure + Vertex" where
  "corner_flat attrib idx =
     and_then (read_vec3 (attrib_t.vertices attrib) (vertex_index idx)) (\<lambda>p.
     and_then (if attrib_t.normals attrib \<noteq> [] \<and> 0 \<le> sint (normal_index idx)
               then read_vec3 (attrib_t.normals attrib) (normal_index idx)
               else Inr \<lparr>vec3.x = 0, y = 0, z = 0\<rparr>) (\<lambda>n.
     and_then (if attrib_t.texcoords attrib \<noteq> [] \<and> 0 \<le> sint (texcoord_index idx)
               then read_vec2 (attrib_t.texcoords attrib) (texcoord_index idx)
               else Inr \<lparr>vec2.x = 0, y = 0\<rparr>) (\<lambda>t.
       Inr \<lparr>position = p, normal = n, texcoords = t\<rparr>)))"

definition corner_body_flat ::
  "attrib_t \<Rightarrow> shape_t \<Rightarrow> nat \<Rightarrow> nat \<Rightarrow> Vertex list \<Rightarrow> failure + Vertex list" where
  "corner_body_flat attrib shape index_offset v verts =
     and_then (at (mesh_t.indices (mesh shape)) (index_offset + v)) (\<lambda>idx.
     and_then (corner_flat attrib idx) (\<lambda>vertex.
       Inr (verts @ [vertex])))"

definition face_body_flat ::
  "attrib_t \<Rightarrow> shape_t \<Rightarrow> nat \<Rightarrow> nat \<times> Vertex list \<Rightarrow> failure + nat \<times> Vertex list" where
  "face_body_flat attrib shape f = (\<lambda>(index_offset, verts).
     and_then (at (num_face_vertices (mesh shape)) f) (\<lambda>fv.
       if fv \<noteq> 3 then Inl (runtime_error ''Non-triangle face detected.'')
       else and_then (for_each [0..<3] (corner_body_flat attrib shape index_offset) verts)
              (\<lambda>verts'. Inr (index_offset + fv, verts'))))"

definition shape_body_flat :: "attrib_t \<Rightarrow> shape_t \<Rightarrow> Vertex list \<Rightarrow> failure + Vertex list" where
  "shape_body_flat attrib shape verts =
     and_then (for_each [0..<length (num_face_vertices (mesh shape))]
                 (face_body_flat attrib shape) (0, verts)) (\<lambda>(index_offset, verts').
       Inr verts')"

definition make_mesh_flat :: "Vertex list \<Rightarrow> failure + Mesh_flat" where
  "make_mesh_flat verts =
     (let vcount = (of_nat (length verts) :: 32 word)
      in if unat vcount < length verts
         then Inl (UB out_of_bounds_write)
         else Inr \<lparr>Mesh_flat.vertices = verts, vertexCount = vcount\<rparr>)"

definition loadOBJ_flat :: "(attrib_t \<times> shape_t list) option \<Rightarrow> failure + Mesh_flat" where
  "loadOBJ_flat parsed =
     (case parsed of
        None \<Rightarrow> Inl (runtime_error ''Failed to load OBJ file.'')
      | Some (attrib, shapes) \<Rightarrow>
          and_then (for_each shapes (shape_body_flat attrib) []) make_mesh_flat)"

section \<open>Notions of the specification\<close>

text \<open>
  The corner stream of an input: for each shape in turn, the index records
  \<open>0 .. 3 * faces - 1\<close> in order, each resolved with the loader's own \<open>corner\<close>. An
  entry is \<open>Inr\<close> of the resolved \<open>Vertex\<close>, or the fault of resolving it.
\<close>

definition scan_corner :: "attrib_t \<Rightarrow> shape_t \<Rightarrow> nat \<Rightarrow> failure + Vertex" where
  "scan_corner attrib shape k = and_then (at (mesh_t.indices (mesh shape)) k) (corner attrib)"

definition corner_stream :: "attrib_t \<Rightarrow> shape_t list \<Rightarrow> (failure + Vertex) list" where
  "corner_stream attrib shapes =
     concat (map (\<lambda>shape. map (scan_corner attrib shape)
                            [0..<3 * length (num_face_vertices (mesh shape))]) shapes)"

definition scan_corner_flat :: "attrib_t \<Rightarrow> shape_t \<Rightarrow> nat \<Rightarrow> failure + Vertex" where
  "scan_corner_flat attrib shape k =
     and_then (at (mesh_t.indices (mesh shape)) k) (corner_flat attrib)"

definition corner_stream_flat :: "attrib_t \<Rightarrow> shape_t list \<Rightarrow> (failure + Vertex) list" where
  "corner_stream_flat attrib shapes =
     concat (map (\<lambda>shape. map (scan_corner_flat attrib shape)
                            [0..<3 * length (num_face_vertices (mesh shape))]) shapes)"

definition face_count :: "shape_t list \<Rightarrow> nat" where
  "face_count shapes = sum_list (map (\<lambda>shape. length (num_face_vertices (mesh shape))) shapes)"

text \<open>
  Replaying an indexed mesh: the vertex each index selects, in order, read with the
  same bounds discipline as \<open>at\<close>.
\<close>

definition replay :: "Mesh \<Rightarrow> (failure + Vertex) list" where
  "replay m = map (\<lambda>i. at (Mesh.vertices m) (unat i)) (Mesh.indices m)"

text \<open>The values of a list in the order of their first occurrence.\<close>

definition first_occurrences :: "'a list \<Rightarrow> 'a list" where
  "first_occurrences cs = rev (remdups (rev cs))"

text \<open>
  An index triple is within the attribute arrays when every subscript the loaders
  compute from it is: the position always, the normal and the texture coordinate
  when they are looked up at all.
\<close>

definition within :: "float list \<Rightarrow> int \<Rightarrow> 32 word \<Rightarrow> bool" where
  "within xs n i \<longleftrightarrow>
     0 \<le> sint i \<and> n * sint i + (n - 1) \<le> 2147483647 \<and>
     n * sint i + (n - 1) < int (length xs)"

definition in_bounds :: "attrib_t \<Rightarrow> index_t \<Rightarrow> bool" where
  "in_bounds attrib idx \<longleftrightarrow>
     within (attrib_t.vertices attrib) 3 (vertex_index idx) \<and>
     (attrib_t.normals attrib \<noteq> [] \<and> 0 \<le> sint (normal_index idx) \<longrightarrow>
        within (attrib_t.normals attrib) 3 (normal_index idx)) \<and>
     (attrib_t.texcoords attrib \<noteq> [] \<and> 0 \<le> sint (texcoord_index idx) \<longrightarrow>
        within (attrib_t.texcoords attrib) 2 (texcoord_index idx))"

definition scan_in_bounds :: "attrib_t \<Rightarrow> shape_t list \<Rightarrow> bool" where
  "scan_in_bounds attrib shapes \<longleftrightarrow>
     (\<forall>shape \<in> set shapes. \<forall>k \<in> set [0..<3 * length (num_face_vertices (mesh shape))].
        k < length (mesh_t.indices (mesh shape)) \<and>
        in_bounds attrib (mesh_t.indices (mesh shape) ! k))"

definition triangles_only :: "shape_t list \<Rightarrow> bool" where
  "triangles_only shapes \<longleftrightarrow>
     (\<forall>shape \<in> set shapes. \<forall>fv \<in> set (num_face_vertices (mesh shape)). fv = 3)"

section \<open>Auxiliary notions for the proofs\<close>

primrec sequence :: "(failure + 'a) list \<Rightarrow> failure + 'a list" where
  "sequence [] = Inr []"
| "sequence (r # rs) = and_then r (\<lambda>v. and_then (sequence rs) (\<lambda>vs. Inr (v # vs)))"

definition numbering :: "Vertex list \<Rightarrow> umap" where
  "numbering vs = zip vs (map of_nat [0..<length vs])"

definition run :: "Vertex list \<Rightarrow> locals" where
  "run cs = foldl (\<lambda>st c. add_corner c st) ([], [], []) cs"

primrec index_of :: "'a list \<Rightarrow> 'a \<Rightarrow> nat" where
  "index_of [] c = 0"
| "index_of (v # vs) c = (if v = c then 0 else Suc (index_of vs c))"

section \<open>Sample inputs\<close>

text \<open>
  A unit square in the plane \<open>z = 0\<close>, cut into two triangles that share two
  corners, with one normal and four texture coordinates; and the mesh the indexed
  loader builds from it.
\<close>

definition quad_attrib :: attrib_t where
  "quad_attrib =
     \<lparr>attrib_t.vertices = [0, 0, 0,  0x3F800000, 0, 0,  0x3F800000, 0x3F800000, 0,
                            0, 0x3F800000, 0],
      normals = [0, 0, 0x3F800000],
      texcoords = [0, 0,  0x3F800000, 0,  0x3F800000, 0x3F800000,  0, 0x3F800000]\<rparr>"

definition quad_shapes :: "shape_t list" where
  "quad_shapes =
     [\<lparr>mesh = \<lparr>mesh_t.indices =
         [\<lparr>vertex_index = 0, normal_index = 0, texcoord_index = 0\<rparr>,
          \<lparr>vertex_index = 1, normal_index = 0, texcoord_index = 1\<rparr>,
          \<lparr>vertex_index = 2, normal_index = 0, texcoord_index = 2\<rparr>,
          \<lparr>vertex_index = 0, normal_index = 0, texcoord_index = 0\<rparr>,
          \<lparr>vertex_index = 2, normal_index = 0, texcoord_index = 2\<rparr>,
          \<lparr>vertex_index = 3, normal_index = 0, texcoord_index = 3\<rparr>],
        num_face_vertices = [3, 3]\<rparr>\<rparr>]"

definition quad_vertex :: "float \<Rightarrow> float \<Rightarrow> Vertex" where
  "quad_vertex a b =
     \<lparr>position = \<lparr>vec3.x = a, y = b, z = 0\<rparr>,
      normal = \<lparr>vec3.x = 0, y = 0, z = 0x3F800000\<rparr>,
      texcoords = \<lparr>vec2.x = a, y = b\<rparr>\<rparr>"

definition quad_mesh :: Mesh where
  "quad_mesh =
     \<lparr>Mesh.vertices = [quad_vertex 0 0, quad_vertex 0x3F800000 0,
                        quad_vertex 0x3F800000 0x3F800000, quad_vertex 0 0x3F800000],
      indices = [0, 1, 2, 0, 2, 3],
      vertexCount = 4,
      indexCount = 6\<rparr>"

text \<open>
  One triangle over two points, without normals or texture coordinates: its corners
  resolve to \<open>A\<close>, \<open>B\<close>, \<open>A\<close>.
\<close>

definition aba_attrib :: attrib_t where
  "aba_attrib =
     \<lparr>attrib_t.vertices = [0, 0, 0,  0x3F800000, 0, 0], normals = [], texcoords = []\<rparr>"

definition aba_shapes :: "shape_t list" where
  "aba_shapes =
     [\<lparr>mesh = \<lparr>mesh_t.indices =
         [\<lparr>vertex_index = 0, normal_index = - 1, texcoord_index = - 1\<rparr>,
          \<lparr>vertex_index = 1, normal_index = - 1, texcoord_index = - 1\<rparr>,
          \<lparr>vertex_index = 0, normal_index = - 1, texcoord_index = - 1\<rparr>],
        num_face_vertices = [3]\<rparr>\<rparr>]"

definition bare_vertex :: "float \<Rightarrow> float \<Rightarrow> float \<Rightarrow> float \<Rightarrow> Vertex" where
  "bare_vertex a b c nz =
     \<lparr>position = \<lparr>vec3.x = a, y = b, z = c\<rparr>,
      normal = \<lparr>vec3.x = 0, y = 0, z = nz\<rparr>,
      texcoords = \<lparr>vec2.x = 0, y = 0\<rparr>\<rparr>"

definition aba_mesh :: Mesh where
  "aba_mesh =
     \<lparr>Mesh.vertices = [bare_vertex 0 0 0 0x3F800000, bare_vertex 0x3F800000 0 0 0x3F800000],
      indices = [0, 1, 0],
      vertexCount = 2,
      indexCount = 3\<rparr>"

text \<open>One triangle over three points, again without normals or texture coordinates.\<close>

definition tri_attrib :: attrib_t where
  "tri_attrib =
     \<lparr>attrib_t.vertices = [0, 0, 0,  0x3F800000, 0, 0,  0, 0x3F800000, 0],
      normals = [], texcoords = []\<rparr>"

definition tri_shapes :: "shape_t list" where
  "tri_shapes =
     [\<lparr>mesh = \<lparr>mesh_t.indices =
         [\<lparr>vertex_index = 0, normal_index = - 1, texcoord_index = - 1\<rparr>,
          \<lparr>vertex_index = 1, normal_index = - 1, texcoord_index = - 1\<rparr>,
          \<lparr>vertex_index = 2, normal_index = - 1, texcoord_index = - 1\<rparr>],
        num_face_vertices = [3]\<rparr>\<rparr>]"

definition tri_mesh :: Mesh where
  "tri_mesh =
     \<lparr>Mesh.vertices = [bare_vertex 0 0 0 0x3F800000, bare_vertex 0x3F800000 0 0 0x3F800000,
                        bare_vertex 0 0x3F800000 0 0x3F800000],
      indices = [0, 1, 2],
      vertexCount = 3,
      indexCount = 3\<rparr>"

definition tri_mesh_flat :: Mesh_flat where
  "tri_mesh_flat =
     \<lparr>Mesh_flat.vertices = [bare_vertex 0 0 0 0, bare_vertex 0x3F800000 0 0 0,
                             bare_vertex 0 0x3F800000 0 0],
      vertexCount = 3\<rparr>"

definition quad_mesh_flat :: Mesh_flat where
  "quad_mesh_flat =
     \<lparr>Mesh_flat.vertices = [quad_vertex 0 0, quad_vertex 0x3F800000 0,
                             quad_vertex 0x3F800000 0x3F800000, quad_vertex 0 0,
                             quad_vertex 0x3F800000 0x3F800000, quad_vertex 0 0x3F800000],
      vertexCount = 6\<rparr>"

text \<open>
  The square again, as a parser that did not triangulate would deliver it after one
  triangle: a face of three corners, then a face of four.
\<close>

definition mixed_shape :: shape_t where
  "mixed_shape =
     \<lparr>mesh = \<lparr>mesh_t.indices =
         [\<lparr>vertex_index = 0, normal_index = 0, texcoord_index = 0\<rparr>,
          \<lparr>vertex_index = 1, normal_index = 0, texcoord_index = 1\<rparr>,
          \<lparr>vertex_index = 2, normal_index = 0, texcoord_index = 2\<rparr>,
          \<lparr>vertex_index = 0, normal_index = 0, texcoord_index = 0\<rparr>,
          \<lparr>vertex_index = 1, normal_index = 0, texcoord_index = 1\<rparr>,
          \<lparr>vertex_index = 2, normal_index = 0, texcoord_index = 2\<rparr>,
          \<lparr>vertex_index = 3, normal_index = 0, texcoord_index = 3\<rparr>],
        num_face_vertices = [3, 4]\<rparr>\<rparr>"


definition oob_normal_shapes :: "shape_t list" where
  "oob_normal_shapes =
     [\<lparr>mesh = \<lparr>mesh_t.indices =
         [\<lparr>vertex_index = 0, normal_index = 0, texcoord_index = 0\<rparr>,
          \<lparr>vertex_index = 1, normal_index = 5, texcoord_index = 1\<rparr>,
          \<lparr>vertex_index = 2, normal_index = 0, texcoord_index = 2\<rparr>],
        num_face_vertices = [3]\<rparr>\<rparr>]"

text \<open>Two vertices that differ only in the sign bit of a zero: \<open>+0.0\<close> and \<open>-0.0\<close>.\<close>

definition plus_zero_vertex :: Vertex where
  "plus_zero_vertex = bare_vertex 0 0 0 0x3F800000"

definition minus_zero_vertex :: Vertex where
  "minus_zero_vertex = bare_vertex 0x80000000 0 0 0x3F800000"

section \<open>Vertex equality is equality of the bit patterns\<close>

lemma memcmp_eq_0_iff:
  "length as = n \<Longrightarrow> length bs = n \<Longrightarrow> memcmp as bs n = 0 \<longleftrightarrow> as = bs"
proof (induction as bs n rule: memcmp.induct)
  case (1 a as b bs n)
  then show ?case by auto
qed auto

lemma bytes_of_float_inject: "bytes_of_float v = bytes_of_float w \<longleftrightarrow> v = w"
proof
  assume eq: "bytes_of_float v = bytes_of_float w"
  have byte: "(ucast (drop_bit (8 * k) v) :: 8 word) = ucast (drop_bit (8 * k) w)" if "k < 4" for k
    using eq that by (simp add: bytes_of_float_def)
  show "v = w"
  proof (rule bit_word_eqI)
    fix n :: nat
    assume "n < LENGTH(32)"
    then have k: "n div 8 < 4" by simp
    have "bit (ucast (drop_bit (8 * (n div 8)) v) :: 8 word) (n mod 8)
        = bit (ucast (drop_bit (8 * (n div 8)) w) :: 8 word) (n mod 8)"
      using byte [OF k] by simp
    then show "bit v n = bit w n"
      by (simp add: bit_ucast_iff bit_drop_bit_eq)
  qed
qed simp

lemma length_bytes_of_float: "length (bytes_of_float w) = 4"
  by (simp add: bytes_of_float_def)

lemma length_bytes_of_Vertex: "length (bytes_of_Vertex v) = sizeof_Vertex"
  by (simp add: bytes_of_Vertex_def bytes_of_vec3_def bytes_of_vec2_def length_bytes_of_float
      sizeof_Vertex_def)

lemma bytes_of_vec3_inject: "bytes_of_vec3 v = bytes_of_vec3 w \<longleftrightarrow> v = w"
  by (auto simp: bytes_of_vec3_def length_bytes_of_float bytes_of_float_inject)

lemma bytes_of_vec2_inject: "bytes_of_vec2 v = bytes_of_vec2 w \<longleftrightarrow> v = w"
  by (auto simp: bytes_of_vec2_def length_bytes_of_float bytes_of_float_inject)

lemma length_bytes_of_vec3: "length (bytes_of_vec3 v) = 12"
  by (simp add: bytes_of_vec3_def length_bytes_of_float)

lemma bytes_of_Vertex_inject: "bytes_of_Vertex v = bytes_of_Vertex w \<longleftrightarrow> v = w"
  by (auto simp: bytes_of_Vertex_def length_bytes_of_vec3 bytes_of_vec3_inject bytes_of_vec2_inject)

lemma operator_eq_iff: "operator_eq a b \<longleftrightarrow> a = b"
  by (simp add: operator_eq_def memcmp_eq_0_iff length_bytes_of_Vertex bytes_of_Vertex_inject)

lemma Vertex_eq_components:
  "(a :: Vertex) = b \<longleftrightarrow>
     vec3.x (position a) = vec3.x (position b) \<and> vec3.y (position a) = vec3.y (position b) \<and>
     vec3.z (position a) = vec3.z (position b) \<and>
     vec3.x (normal a) = vec3.x (normal b) \<and> vec3.y (normal a) = vec3.y (normal b) \<and>
     vec3.z (normal a) = vec3.z (normal b) \<and>
     vec2.x (Vertex.texcoords a) = vec2.x (Vertex.texcoords b) \<and>
     vec2.y (Vertex.texcoords a) = vec2.y (Vertex.texcoords b)"
  by (auto intro!: Vertex.equality vec3.equality vec2.equality)

text \<open>
  Vertices that \<open>operator==\<close> identifies have the same hash, whatever the library's
  hash of a float is: the map of seen vertices can be taken as a list of entries that
  is searched with \<open>operator==\<close> alone.
\<close>

lemma hash_Vertex_respects_operator_eq:
  "operator_eq a b \<Longrightarrow> hash_Vertex hash_float a = hash_Vertex hash_float b"
  by (simp add: operator_eq_iff)

section \<open>Properties of the loaders\<close>

subsection \<open>Sequencing\<close>

lemma and_then_Inr_iff: "and_then r f = Inr b \<longleftrightarrow> (\<exists>a. r = Inr a \<and> f a = Inr b)"
  by (cases r) auto

lemma and_then_assoc: "and_then (and_then r f) g = and_then r (\<lambda>v. and_then (f v) g)"
  by (cases r) auto

lemma and_then_Inr_right: "and_then r Inr = r"
  by (cases r) auto

lemma sequence_append:
  "sequence (rs @ ss) =
     and_then (sequence rs) (\<lambda>vs. and_then (sequence ss) (\<lambda>ws. Inr (vs @ ws)))"
proof (induction rs)
  case Nil
  then show ?case by (simp add: and_then_Inr_right)
next
  case (Cons r rs)
  then show ?case
    by (cases r; cases "sequence rs"; cases "sequence ss") auto
qed

lemma sequence_Inr_iff: "sequence rs = Inr vs \<longleftrightarrow> rs = map Inr vs"
proof (induction rs arbitrary: vs)
  case Nil
  then show ?case by auto
next
  case (Cons r rs)
  show ?case
  proof (cases r)
    case (Inl e)
    then show ?thesis by (cases vs) auto
  next
    case (Inr v)
    then show ?thesis using Cons by (cases vs) (auto simp: and_then_Inr_iff)
  qed
qed

lemma ex_map_Inr_iff: "(\<exists>cs. rs = map Inr cs) \<longleftrightarrow> (\<forall>r \<in> set rs. \<exists>v. r = Inr v)"
proof (induction rs)
  case Nil
  then show ?case by simp
next
  case (Cons r rs)
  show ?case
  proof
    assume "\<exists>cs. r # rs = map Inr cs"
    then show "\<forall>r' \<in> set (r # rs). \<exists>v. r' = Inr v" by auto
  next
    assume all: "\<forall>r' \<in> set (r # rs). \<exists>v. r' = Inr v"
    then obtain v where v: "r = Inr v" by auto
    from all Cons obtain cs where "rs = map Inr cs" by auto
    with v have "r # rs = map Inr (v # cs)" by simp
    then show "\<exists>cs. r # rs = map Inr cs" by (rule exI)
  qed
qed

lemma for_each_append:
  "for_each (as @ bs) body s = and_then (for_each as body s) (for_each bs body)"
proof (induction as arbitrary: s)
  case Nil
  then show ?case by simp
next
  case (Cons a as)
  then show ?case by (cases "body a s") simp_all
qed

lemma for_each_fold:
  "for_each ks (\<lambda>k s. and_then (g k) (\<lambda>v. Inr (h v s))) s =
     and_then (sequence (map g ks)) (\<lambda>vs. Inr (foldl (\<lambda>s v. h v s) s vs))"
proof (induction ks arbitrary: s)
  case Nil
  then show ?case by simp
next
  case (Cons k ks)
  show ?case
  proof (cases "g k")
    case (Inl e)
    then show ?thesis by simp
  next
    case (Inr v)
    then show ?thesis
      using Cons [of "h v s"] by (cases "sequence (map g ks)") auto
  qed
qed

lemma for_each_Inr_split:
  assumes "for_each (as @ i # bs) body s = Inr s'"
  shows "\<exists>s1 s2. for_each as body s = Inr s1 \<and> body i s1 = Inr s2 \<and> for_each bs body s2 = Inr s'"
  using assms by (auto simp: for_each_append and_then_Inr_iff)

lemma for_each_Inr_member:
  assumes "for_each ks body s = Inr s'" "i \<in> set ks"
  shows "\<exists>s1 s2. body i s1 = Inr s2"
proof -
  from assms(2) obtain as bs where "ks = as @ i # bs"
    by (auto dest: split_list)
  with assms(1) for_each_Inr_split [of as i bs body s s'] show ?thesis
    by blast
qed

lemma for_each_prefix_fails:
  assumes "for_each as body s = Inr s1" "body i s1 = Inl e"
  shows "for_each (as @ i # bs) body s = Inl e"
  using assms by (simp add: for_each_append)

lemma for_each_Inl:
  "for_each ks body s = Inl e \<Longrightarrow> \<exists>i \<in> set ks. \<exists>s1. body i s1 = Inl e"
proof (induction ks arbitrary: s)
  case Nil
  then show ?case by simp
next
  case (Cons k ks)
  show ?case
  proof (cases "body k s")
    case (Inl e')
    with Cons.prems have "body k s = Inl e" by simp
    then show ?thesis by auto
  next
    case (Inr s')
    with Cons.prems have "for_each ks body s' = Inl e" by simp
    from Cons.IH [OF this] show ?thesis by auto
  qed
qed

lemma upt_3: "[0..<3] = [0, 1, 2]"
  by (simp add: upt_rec)

lemma upt_add_3: "[off..<off + 3 * Suc n] = [off, off + 1, off + 2] @ [off + 3..<off + 3 + 3 * n]"
proof -
  have "[off..<off + 3 * Suc n] = [off..<off + 3] @ [off + 3..<off + 3 + 3 * n]"
    using upt_add_eq_append [of off "off + 3" "3 * n"] by (simp add: add.assoc)
  moreover have "[off..<off + 3] = [off, off + 1, off + 2]"
    by (simp add: upt_rec [of off] upt_rec [of "Suc off"] upt_rec [of "Suc (Suc off)"])
  ultimately show ?thesis by simp
qed

lemma upt_split: "f < n \<Longrightarrow> [0..<n] = [0..<f] @ f # [Suc f..<n]"
  using upt_add_eq_append [of 0 f "n - f"] upt_conv_Cons [of f n] by simp

lemma foldl_snoc: "foldl (\<lambda>verts c. verts @ [c]) verts cs = verts @ cs"
  by (induction cs arbitrary: verts) simp_all

subsection \<open>Failures that are not raised\<close>

lemma raises_iff: "raises r \<longleftrightarrow> (\<exists>msg. r = Inl (runtime_error msg))"
  by (cases r rule: raises.cases) auto


lemma not_raises_and_then:
  "\<not> raises r \<Longrightarrow> (\<And>v. \<not> raises (f v)) \<Longrightarrow> \<not> raises (and_then r f)"
  by (cases r rule: raises.cases) auto

lemma not_raises_at: "\<not> raises (at xs n)"
  by (simp add: at_def)

lemma not_raises_subscript: "\<not> raises (subscript n i k)"
  by (simp add: subscript_def)

lemma not_raises_component: "\<not> raises (component xs n i k)"
  by (simp add: component_def not_raises_and_then not_raises_at not_raises_subscript)

lemma not_raises_read_vec3: "\<not> raises (read_vec3 xs i)"
  by (simp add: read_vec3_def not_raises_and_then not_raises_component)

lemma not_raises_read_vec2: "\<not> raises (read_vec2 xs i)"
  by (simp add: read_vec2_def not_raises_and_then not_raises_component)

lemma not_raises_corner: "\<not> raises (corner attrib idx)"
  by (simp add: corner_def not_raises_and_then not_raises_read_vec3 not_raises_read_vec2)

lemma not_raises_corner_flat: "\<not> raises (corner_flat attrib idx)"
  by (simp add: corner_flat_def not_raises_and_then not_raises_read_vec3 not_raises_read_vec2)

lemma not_raises_scan_corner: "\<not> raises (scan_corner attrib shape k)"
  by (simp add: scan_corner_def not_raises_and_then not_raises_at not_raises_corner)

lemma not_raises_scan_corner_flat: "\<not> raises (scan_corner_flat attrib shape k)"
  by (simp add: scan_corner_flat_def not_raises_and_then not_raises_at not_raises_corner_flat)

lemma not_raises_corner_body_flat: "\<not> raises (corner_body_flat attrib shape off v verts)"
  by (simp add: corner_body_flat_def not_raises_and_then not_raises_at not_raises_corner_flat)

lemma not_raises_sequence: "(\<And>r. r \<in> set rs \<Longrightarrow> \<not> raises r) \<Longrightarrow> \<not> raises (sequence rs)"
  by (induction rs) (simp_all add: not_raises_and_then)

lemma not_raises_make_mesh: "\<not> raises (make_mesh verts inds)"
  by (simp add: make_mesh_def Let_def)

lemma not_raises_make_mesh_flat: "\<not> raises (make_mesh_flat verts)"
  by (simp add: make_mesh_flat_def Let_def)

subsection \<open>Reading attributes\<close>

lemma sint_32_bounds: "- 2147483648 \<le> sint (i :: 32 word) \<and> sint i \<le> 2147483647"
  using sint_ge [of i] sint_lt [of i] by simp

lemma component_Inr_iff:
  "component xs n i k = Inr a \<longleftrightarrow>
     int_range (n * sint i) \<and> int_range (n * sint i + k) \<and> 0 \<le> n * sint i + k \<and>
     n * sint i + k < int (length xs) \<and> a = xs ! nat (n * sint i + k)"
  by (auto simp: component_def subscript_def at_def)

lemma read_vec3_Inr_iff:
  "read_vec3 xs i = Inr v \<longleftrightarrow>
     within xs 3 i \<and>
     v = \<lparr>vec3.x = xs ! nat (3 * sint i), y = xs ! nat (3 * sint i + 1),
          z = xs ! nat (3 * sint i + 2)\<rparr>"
  using sint_32_bounds [of i]
  by (auto simp: read_vec3_def and_then_Inr_iff component_Inr_iff within_def int_range_def)

lemma read_vec2_Inr_iff:
  "read_vec2 xs i = Inr v \<longleftrightarrow>
     within xs 2 i \<and> v = \<lparr>vec2.x = xs ! nat (2 * sint i), y = xs ! nat (2 * sint i + 1)\<rparr>"
  using sint_32_bounds [of i]
  by (auto simp: read_vec2_def and_then_Inr_iff component_Inr_iff within_def int_range_def)

lemma corner_Inr_iff:
  "corner attrib idx = Inr v \<longleftrightarrow>
     in_bounds attrib idx \<and>
     read_vec3 (attrib_t.vertices attrib) (vertex_index idx) = Inr (position v) \<and>
     (if attrib_t.normals attrib \<noteq> [] \<and> 0 \<le> sint (normal_index idx)
      then read_vec3 (attrib_t.normals attrib) (normal_index idx) = Inr (normal v)
      else normal v = \<lparr>vec3.x = 0, y = 0, z = 0x3F800000\<rparr>) \<and>
     (if attrib_t.texcoords attrib \<noteq> [] \<and> 0 \<le> sint (texcoord_index idx)
      then read_vec2 (attrib_t.texcoords attrib) (texcoord_index idx) = Inr (Vertex.texcoords v)
      else Vertex.texcoords v = \<lparr>vec2.x = 0, y = 0\<rparr>)"
  by (cases v) (auto simp: corner_def and_then_Inr_iff in_bounds_def read_vec3_Inr_iff read_vec2_Inr_iff)

lemma corner_flat_Inr_iff:
  "corner_flat attrib idx = Inr v \<longleftrightarrow>
     in_bounds attrib idx \<and>
     read_vec3 (attrib_t.vertices attrib) (vertex_index idx) = Inr (position v) \<and>
     (if attrib_t.normals attrib \<noteq> [] \<and> 0 \<le> sint (normal_index idx)
      then read_vec3 (attrib_t.normals attrib) (normal_index idx) = Inr (normal v)
      else normal v = \<lparr>vec3.x = 0, y = 0, z = 0\<rparr>) \<and>
     (if attrib_t.texcoords attrib \<noteq> [] \<and> 0 \<le> sint (texcoord_index idx)
      then read_vec2 (attrib_t.texcoords attrib) (texcoord_index idx) = Inr (Vertex.texcoords v)
      else Vertex.texcoords v = \<lparr>vec2.x = 0, y = 0\<rparr>)"
  by (cases v) (auto simp: corner_flat_def and_then_Inr_iff in_bounds_def read_vec3_Inr_iff read_vec2_Inr_iff)

lemma in_bounds_corner: "in_bounds attrib idx \<Longrightarrow> \<exists>v. corner attrib idx = Inr v"
  by (auto simp: corner_def in_bounds_def read_vec3_Inr_iff read_vec2_Inr_iff and_then_Inr_iff)

lemma in_bounds_corner_flat: "in_bounds attrib idx \<Longrightarrow> \<exists>v. corner_flat attrib idx = Inr v"
  by (auto simp: corner_flat_def in_bounds_def read_vec3_Inr_iff read_vec2_Inr_iff and_then_Inr_iff)

lemma scan_corner_Inr_iff:
  "(\<exists>v. scan_corner attrib shape k = Inr v) \<longleftrightarrow>
     k < length (mesh_t.indices (mesh shape)) \<and> in_bounds attrib (mesh_t.indices (mesh shape) ! k)"
proof
  assume "\<exists>v. scan_corner attrib shape k = Inr v"
  then obtain v idx where "at (mesh_t.indices (mesh shape)) k = Inr idx" "corner attrib idx = Inr v"
    by (auto simp: scan_corner_def and_then_Inr_iff)
  then show "k < length (mesh_t.indices (mesh shape)) \<and>
      in_bounds attrib (mesh_t.indices (mesh shape) ! k)"
    by (auto simp: at_def corner_Inr_iff split: if_splits)
next
  assume "k < length (mesh_t.indices (mesh shape)) \<and>
      in_bounds attrib (mesh_t.indices (mesh shape) ! k)"
  then show "\<exists>v. scan_corner attrib shape k = Inr v"
    using in_bounds_corner [of attrib "mesh_t.indices (mesh shape) ! k"]
    by (simp add: scan_corner_def at_def)
qed

lemma scan_corner_flat_Inr_iff:
  "(\<exists>v. scan_corner_flat attrib shape k = Inr v) \<longleftrightarrow>
     k < length (mesh_t.indices (mesh shape)) \<and> in_bounds attrib (mesh_t.indices (mesh shape) ! k)"
proof
  assume "\<exists>v. scan_corner_flat attrib shape k = Inr v"
  then obtain v idx where "at (mesh_t.indices (mesh shape)) k = Inr idx"
    "corner_flat attrib idx = Inr v"
    by (auto simp: scan_corner_flat_def and_then_Inr_iff)
  then show "k < length (mesh_t.indices (mesh shape)) \<and>
      in_bounds attrib (mesh_t.indices (mesh shape) ! k)"
    by (auto simp: at_def corner_flat_Inr_iff split: if_splits)
next
  assume "k < length (mesh_t.indices (mesh shape)) \<and>
      in_bounds attrib (mesh_t.indices (mesh shape) ! k)"
  then show "\<exists>v. scan_corner_flat attrib shape k = Inr v"
    using in_bounds_corner_flat [of attrib "mesh_t.indices (mesh shape) ! k"]
    by (simp add: scan_corner_flat_def at_def)
qed


lemma scan_corner_flat_eq:
  assumes "attrib_t.normals attrib \<noteq> []" "attrib_t.texcoords attrib \<noteq> []"
    and "\<forall>idx \<in> set (take n (mesh_t.indices (mesh shape))).
           0 \<le> sint (normal_index idx) \<and> 0 \<le> sint (texcoord_index idx)"
    and "k < n"
  shows "scan_corner_flat attrib shape k = scan_corner attrib shape k"
proof (cases "k < length (mesh_t.indices (mesh shape))")
  case False
  then show ?thesis
    by (simp add: scan_corner_flat_def scan_corner_def at_def)
next
  case True
  with assms(4) have "mesh_t.indices (mesh shape) ! k \<in> set (take n (mesh_t.indices (mesh shape)))"
    by (auto simp: in_set_conv_nth intro!: exI [of _ k])
  with assms(3) have "0 \<le> sint (normal_index (mesh_t.indices (mesh shape) ! k)) \<and>
      0 \<le> sint (texcoord_index (mesh_t.indices (mesh shape) ! k))"
    by blast
  with assms(1,2) True show ?thesis
    by (simp add: scan_corner_flat_def scan_corner_def at_def corner_def corner_flat_def)
qed

lemma corner_stream_flat_eq:
  assumes "attrib_t.normals attrib \<noteq> []" "attrib_t.texcoords attrib \<noteq> []"
    and "\<forall>shape \<in> set shapes.
           \<forall>idx \<in> set (take (3 * length (num_face_vertices (mesh shape)))
                          (mesh_t.indices (mesh shape))).
             0 \<le> sint (normal_index idx) \<and> 0 \<le> sint (texcoord_index idx)"
  shows "corner_stream_flat attrib shapes = corner_stream attrib shapes"
proof -
  have "map (scan_corner_flat attrib shape) [0..<3 * length (num_face_vertices (mesh shape))] =
      map (scan_corner attrib shape) [0..<3 * length (num_face_vertices (mesh shape))]"
    if "shape \<in> set shapes" for shape
    using that assms(3) scan_corner_flat_eq [OF assms(1,2), of _ shape]
    by (intro map_cong) auto
  then show ?thesis
    unfolding corner_stream_flat_def corner_stream_def
    by (intro arg_cong [where f = concat] map_cong) auto
qed

subsection \<open>First occurrences\<close>

lemma first_occurrences_snoc:
  "first_occurrences (cs @ [c]) = (if c \<in> set cs then first_occurrences cs else first_occurrences cs @ [c])"
  by (simp add: first_occurrences_def)

lemma set_first_occurrences: "set (first_occurrences cs) = set cs"
  by (simp add: first_occurrences_def)

lemma distinct_first_occurrences: "distinct (first_occurrences cs)"
  by (simp add: first_occurrences_def)

lemma length_first_occurrences: "length (first_occurrences cs) \<le> length cs"
  by (simp add: first_occurrences_def le_trans [OF length_remdups_leq])


lemma first_occurrences_extend:
  "c \<notin> set as \<Longrightarrow> \<exists>ws. first_occurrences (as @ c # bs) = first_occurrences as @ c # ws"
proof (induction bs rule: rev_induct)
  case Nil
  then show ?case by (simp add: first_occurrences_snoc)
next
  case (snoc b bs)
  then obtain ws where "first_occurrences (as @ c # bs) = first_occurrences as @ c # ws"
    by blast
  then show ?case
    using first_occurrences_snoc [of "as @ c # bs" b] by auto
qed

lemma first_occurrences_map_Inr:
  "first_occurrences (map Inr cs) = map Inr (first_occurrences cs)"
  by (induction cs rule: rev_induct) (auto simp: first_occurrences_snoc first_occurrences_def)


lemma index_of_nth: "distinct vs \<Longrightarrow> j < length vs \<Longrightarrow> index_of vs (vs ! j) = j"
proof (induction vs arbitrary: j)
  case Nil
  then show ?case by simp
next
  case (Cons v vs)
  then show ?case by (cases j) auto
qed

lemma index_of_append: "c \<notin> set vs \<Longrightarrow> index_of (vs @ c # ws) c = length vs"
  by (induction vs) auto

lemma index_of_less: "c \<in> set vs \<Longrightarrow> index_of vs c < length vs"
  by (induction vs) auto

lemma nth_index_of: "c \<in> set vs \<Longrightarrow> vs ! index_of vs c = c"
  by (induction vs) auto

lemma index_of_first_occurrences_new:
  assumes "k < length cs" "cs ! k \<notin> set (take k cs)"
  shows "index_of (first_occurrences cs) (cs ! k) = length (first_occurrences (take k cs))"
proof -
  have "cs = take k cs @ cs ! k # drop (Suc k) cs"
    using assms(1) by (simp add: id_take_nth_drop)
  with first_occurrences_extend [OF assms(2), of "drop (Suc k) cs"]
  obtain ws where "first_occurrences cs = first_occurrences (take k cs) @ cs ! k # ws"
    by auto
  moreover have "cs ! k \<notin> set (first_occurrences (take k cs))"
    using assms(2) by (simp add: set_first_occurrences)
  ultimately show ?thesis
    by (simp add: index_of_append)
qed

subsection \<open>The map of seen vertices\<close>

lemma umap_find_eq: "umap_find m k = find (\<lambda>e. fst e = k) m"
  by (simp add: umap_find_def operator_eq_iff)

lemma find_append_cases:
  "find P (as @ bs) = (case find P as of None \<Rightarrow> find P bs | Some a \<Rightarrow> Some a)"
  by (induction as) auto

lemma find_zip_None: "k \<notin> set ks \<Longrightarrow> find (\<lambda>e. fst e = k) (zip ks vs) = None"
  by (auto simp: find_None_iff dest: set_zip_leftD)

lemma find_zip_Some:
  "distinct ks \<Longrightarrow> length vs = length ks \<Longrightarrow> j < length ks \<Longrightarrow>
     find (\<lambda>e. fst e = ks ! j) (zip ks vs) = Some (ks ! j, vs ! j)"
proof (induction ks arbitrary: vs j)
  case Nil
  then show ?case by simp
next
  case (Cons k ks)
  then obtain v vs' where vs: "vs = v # vs'" by (cases vs) auto
  show ?case
  proof (cases j)
    case 0
    then show ?thesis by (simp add: vs)
  next
    case (Suc j')
    with Cons.prems have "ks ! j' \<noteq> k" by auto
    with Cons Suc vs show ?thesis by simp
  qed
qed

lemma numbering_snoc: "numbering (vs @ [v]) = numbering vs @ [(v, of_nat (length vs))]"
  by (simp add: numbering_def)

lemma add_corner_new:
  assumes "distinct vs" "c \<notin> set vs"
  shows "add_corner c (vs, is, numbering vs) = (vs @ [c], is @ [of_nat (length vs)], numbering (vs @ [c]))"
proof -
  have none: "umap_find (numbering vs) c = None"
    using assms by (simp add: umap_find_eq numbering_def find_zip_None)
  have "umap_find (numbering vs @ [(c, of_nat (length vs))]) c = Some (c, of_nat (length vs))"
    using none by (simp add: umap_find_eq find_append_cases)
  with none show ?thesis
    by (simp add: add_corner_def umap_count_def umap_assign_def umap_get_def numbering_snoc)
qed

lemma add_corner_old:
  assumes "distinct vs" "j < length vs"
  shows "add_corner (vs ! j) (vs, is, numbering vs) = (vs, is @ [of_nat j], numbering vs)"
proof -
  have "umap_find (numbering vs) (vs ! j) = Some (vs ! j, of_nat j)"
    using assms by (simp add: umap_find_eq numbering_def find_zip_Some)
  then show ?thesis
    by (simp add: add_corner_def umap_count_def umap_get_def)
qed

lemma add_corner_two:
  assumes "a \<noteq> b"
  shows "add_corner b (add_corner a ([], [], [])) = ([a, b], [0, 1], [(a, 0), (b, 1)])"
proof -
  have "add_corner a ([], [], numbering []) = ([] @ [a], [] @ [of_nat (length ([] :: Vertex list))], numbering ([] @ [a]))"
    by (rule add_corner_new) simp_all
  then have first: "add_corner a ([], [], []) = ([a], [0], numbering [a])"
    by (simp add: numbering_def)
  have "add_corner b ([a], [0], numbering [a]) = ([a] @ [b], [0] @ [of_nat (length [a])], numbering ([a] @ [b]))"
    using assms by (intro add_corner_new) simp_all
  with first show ?thesis
    by (simp add: numbering_def upt_rec)
qed

subsection \<open>The deduplication of a corner stream\<close>

lemma run_snoc: "run (cs @ [c]) = add_corner c (run cs)"
  by (simp add: run_def)

lemma run_invariant:
  "\<exists>is. run cs = (first_occurrences cs, is, numbering (first_occurrences cs)) \<and>
        length is = length cs \<and>
        (\<forall>k<length cs. \<exists>j<length (first_occurrences cs).
            first_occurrences cs ! j = cs ! k \<and> is ! k = of_nat j)"
proof (induction cs rule: rev_induct)
  case Nil
  then show ?case by (simp add: run_def first_occurrences_def numbering_def)
next
  case (snoc c cs)
  then obtain "is" where run: "run cs = (first_occurrences cs, is, numbering (first_occurrences cs))"
    and len: "length is = length cs"
    and idx: "\<forall>k<length cs. \<exists>j<length (first_occurrences cs).
            first_occurrences cs ! j = cs ! k \<and> is ! k = of_nat j"
    by blast
  let ?vs = "first_occurrences cs"
  have d: "distinct ?vs" by (rule distinct_first_occurrences)
  show ?case
  proof (cases "c \<in> set cs")
    case True
    then have "c \<in> set ?vs" by (simp add: set_first_occurrences)
    then obtain j where j: "j < length ?vs" "?vs ! j = c" by (auto simp: in_set_conv_nth)
    have step: "run (cs @ [c]) = (?vs, is @ [of_nat j], numbering ?vs)"
      using add_corner_old [OF d j(1), of "is"] j(2) by (simp add: run_snoc run)
    have "\<exists>j<length ?vs. ?vs ! j = (cs @ [c]) ! k \<and> (is @ [of_nat j']) ! k = of_nat j"
      if "k < length (cs @ [c])" "j' = j" for k j'
    proof (cases "k < length cs")
      case True
      with idx len show ?thesis by (simp add: nth_append)
    next
      case False
      with that have "k = length cs" by simp
      with j len that show ?thesis by (auto simp: nth_append)
    qed
    with step True len show ?thesis
      by (simp add: first_occurrences_snoc)
  next
    case False
    then have "c \<notin> set ?vs" by (simp add: set_first_occurrences)
    from add_corner_new [OF d this, of "is"]
    have step: "run (cs @ [c]) = (?vs @ [c], is @ [of_nat (length ?vs)], numbering (?vs @ [c]))"
      by (simp add: run_snoc run)
    have "\<exists>j<length (?vs @ [c]). (?vs @ [c]) ! j = (cs @ [c]) ! k \<and> (is @ [of_nat (length ?vs)]) ! k = of_nat j"
      if "k < length (cs @ [c])" for k
    proof (cases "k < length cs")
      case True
      with idx obtain j where "j < length ?vs" "?vs ! j = cs ! k" "is ! k = of_nat j" by blast
      with True len show ?thesis by (intro exI [of _ j]) (simp add: nth_append)
    next
      case False
      with that have "k = length cs" by simp
      with len show ?thesis by (intro exI [of _ "length ?vs"]) (simp add: nth_append)
    qed
    with step False len show ?thesis
      by (simp add: first_occurrences_snoc)
  qed
qed

lemma run_closed:
  "run cs = (first_occurrences cs,
             map (\<lambda>c. of_nat (index_of (first_occurrences cs) c)) cs,
             numbering (first_occurrences cs))"
proof -
  from run_invariant [of cs] obtain "is" where
    run: "run cs = (first_occurrences cs, is, numbering (first_occurrences cs))"
    and len: "length is = length cs"
    and idx: "\<forall>k<length cs. \<exists>j<length (first_occurrences cs).
                first_occurrences cs ! j = cs ! k \<and> is ! k = of_nat j"
    by blast
  have "is = map (\<lambda>c. of_nat (index_of (first_occurrences cs) c)) cs"
  proof (rule nth_equalityI)
    show "length is = length (map (\<lambda>c. of_nat (index_of (first_occurrences cs) c)) cs)"
      by (simp add: len)
  next
    fix k assume "k < length is"
    then have k: "k < length cs" by (simp add: len)
    with idx obtain j where j: "j < length (first_occurrences cs)"
      "first_occurrences cs ! j = cs ! k" "is ! k = of_nat j" by blast
    have "index_of (first_occurrences cs) (cs ! k) = j"
      using index_of_nth [OF distinct_first_occurrences j(1)] j(2) by simp
    with j k show "is ! k = map (\<lambda>c. of_nat (index_of (first_occurrences cs) c)) cs ! k"
      by simp
  qed
  with run show ?thesis by simp
qed

subsection \<open>The loops of the indexed loader\<close>

lemma corner_body_eq:
  "corner_body attrib shape off =
     (\<lambda>v st. and_then (scan_corner attrib shape (off + v)) (\<lambda>c. Inr (add_corner c st)))"
  by (rule ext)+ (simp add: corner_body_def scan_corner_def and_then_assoc)

lemma face_loop:
  "for_each fs (face_body attrib shape) (off, st) =
     and_then (sequence (map (scan_corner attrib shape) [off..<off + 3 * length fs]))
       (\<lambda>cs. Inr (off + 3 * length fs, foldl (\<lambda>st c. add_corner c st) st cs))"
proof (induction fs arbitrary: off st)
  case Nil
  then show ?case by simp
next
  case (Cons f fs)
  let ?c = "scan_corner attrib shape"
  have first: "for_each [0..<3] (corner_body attrib shape off) st =
      and_then (sequence [?c off, ?c (off + 1), ?c (off + 2)])
        (\<lambda>cs. Inr (foldl (\<lambda>st c. add_corner c st) st cs))"
    unfolding corner_body_eq for_each_fold by (simp add: upt_3)
  show ?case
    unfolding for_each.simps face_body_def prod.case first length_Cons upt_add_3 map_append
      sequence_append and_then_assoc
    by (cases "?c off"; cases "?c (off + 1)"; cases "?c (off + 2)";
        cases "sequence (map ?c [off + 3..<off + 3 + 3 * length fs])")
       (simp_all add: Cons [unfolded face_body_def] add.assoc)
qed

lemma shape_body_eq:
  "shape_body attrib shape st =
     and_then (sequence (map (scan_corner attrib shape)
                  [0..<3 * length (num_face_vertices (mesh shape))]))
       (\<lambda>cs. Inr (foldl (\<lambda>st c. add_corner c st) st cs))"
  by (simp add: shape_body_def face_loop [where off = 0, simplified] and_then_assoc)

lemma shape_loop:
  "for_each shapes (shape_body attrib) st =
     and_then (sequence (corner_stream attrib shapes))
       (\<lambda>cs. Inr (foldl (\<lambda>st c. add_corner c st) st cs))"
proof (induction shapes arbitrary: st)
  case Nil
  then show ?case by (simp add: corner_stream_def)
next
  case (Cons shape shapes)
  have cs: "corner_stream attrib (shape # shapes) =
      map (scan_corner attrib shape) [0..<3 * length (num_face_vertices (mesh shape))]
        @ corner_stream attrib shapes"
    by (simp add: corner_stream_def)
  let ?here = "sequence (map (scan_corner attrib shape)
                  [0..<3 * length (num_face_vertices (mesh shape))])"
  show ?case
  proof (cases ?here)
    case (Inl e)
    then have "shape_body attrib shape st = Inl e"
      by (simp add: shape_body_eq [of attrib shape st])
    with Inl show ?thesis
      by (simp add: cs sequence_append)
  next
    case (Inr here)
    then have "shape_body attrib shape st = Inr (foldl (\<lambda>st c. add_corner c st) st here)"
      by (simp add: shape_body_eq [of attrib shape st])
    with Inr show ?thesis
      by (cases "sequence (corner_stream attrib shapes)")
         (simp_all add: cs sequence_append Cons)
  qed
qed

lemma loadOBJ_eq:
  "loadOBJ (Some (attrib, shapes)) =
     and_then (sequence (corner_stream attrib shapes))
       (\<lambda>cs. make_mesh (fst (run cs)) (fst (snd (run cs))))"
  by (cases "sequence (corner_stream attrib shapes)")
     (simp_all add: loadOBJ_def shape_loop run_def split: prod.splits)

lemma length_corner_stream: "length (corner_stream attrib shapes) = 3 * face_count shapes"
  by (induction shapes) (simp_all add: corner_stream_def face_count_def)

subsection \<open>What the indexed loader returns\<close>

lemma mod_less_iff: "(n::nat) mod 4294967296 < n \<longleftrightarrow> 4294967296 \<le> n"
proof
  assume "n mod 4294967296 < n"
  then show "4294967296 \<le> n" by (cases "n < 4294967296") simp_all
next
  assume "4294967296 \<le> n"
  moreover have "n mod 4294967296 < 4294967296" by simp
  ultimately show "n mod 4294967296 < n" by linarith
qed

lemma unat_of_nat_32_less: "unat (of_nat n :: 32 word) < n \<longleftrightarrow> 4294967296 \<le> n"
  by (simp add: unat_of_nat mod_less_iff)

lemma unat_of_nat_32: "n < 4294967296 \<Longrightarrow> unat (of_nat n :: 32 word) = n"
  by (simp add: unat_of_nat)

lemma make_mesh_Inr_iff:
  "make_mesh verts inds = Inr m \<longleftrightarrow>
     length verts < 4294967296 \<and> length inds < 4294967296 \<and>
     m = \<lparr>Mesh.vertices = verts, indices = inds,
          vertexCount = of_nat (length verts), indexCount = of_nat (length inds)\<rparr>"
  by (auto simp: make_mesh_def Let_def unat_of_nat_32_less not_le)

lemma loadOBJ_Inr_iff:
  "loadOBJ (Some (attrib, shapes)) = Inr m \<longleftrightarrow>
     (\<exists>cs. corner_stream attrib shapes = map Inr cs \<and> length cs < 4294967296 \<and>
        m = \<lparr>Mesh.vertices = first_occurrences cs,
             indices = map (\<lambda>c. of_nat (index_of (first_occurrences cs) c)) cs,
             vertexCount = of_nat (length (first_occurrences cs)),
             indexCount = of_nat (length cs)\<rparr>)"
proof -
  have le: "length (first_occurrences cs) < 4294967296" if "length cs < 4294967296"
    for cs :: "Vertex list"
    using length_first_occurrences [of cs] that by simp
  show ?thesis
    unfolding loadOBJ_eq and_then_Inr_iff sequence_Inr_iff
    by (auto simp: run_closed make_mesh_Inr_iff le)
qed

lemma replay_numbered:
  assumes len: "length cs < 4294967296"
    and v: "Mesh.vertices m = first_occurrences cs"
    and i: "Mesh.indices m = map (\<lambda>c. of_nat (index_of (first_occurrences cs) c)) cs"
  shows "replay m = map Inr cs"
proof -
  have "at (first_occurrences cs) (unat (of_nat (index_of (first_occurrences cs) c) :: 32 word)) = Inr c"
    if "c \<in> set cs" for c
  proof -
    from that have mem: "c \<in> set (first_occurrences cs)"
      by (simp add: set_first_occurrences)
    then have less: "index_of (first_occurrences cs) c < length (first_occurrences cs)"
      by (rule index_of_less)
    with length_first_occurrences [of cs] len
    have "index_of (first_occurrences cs) c < 4294967296" by simp
    then have "unat (of_nat (index_of (first_occurrences cs) c) :: 32 word)
        = index_of (first_occurrences cs) c"
      by (rule unat_of_nat_32)
    with less mem show ?thesis
      by (simp add: at_def nth_index_of)
  qed
  then show ?thesis
    by (simp add: replay_def v i comp_def)
qed

lemma corner_stream_resolves_iff:
  "(\<exists>cs. corner_stream attrib shapes = map Inr cs) \<longleftrightarrow> scan_in_bounds attrib shapes"
proof -
  have "(\<forall>r \<in> set (corner_stream attrib shapes). \<exists>v. r = Inr v) \<longleftrightarrow>
      (\<forall>shape \<in> set shapes. \<forall>k \<in> set [0..<3 * length (num_face_vertices (mesh shape))].
         \<exists>v. scan_corner attrib shape k = Inr v)"
    by (auto simp: corner_stream_def)
  then show ?thesis
    by (simp only: ex_map_Inr_iff scan_in_bounds_def scan_corner_Inr_iff)
qed

lemma loadOBJ_returns_iff:
  "(\<exists>m. loadOBJ (Some (attrib, shapes)) = Inr m) \<longleftrightarrow>
     scan_in_bounds attrib shapes \<and> 3 * face_count shapes < 4294967296"
proof
  assume "\<exists>m. loadOBJ (Some (attrib, shapes)) = Inr m"
  then obtain cs where cs: "corner_stream attrib shapes = map Inr cs"
    and len: "length cs < 4294967296"
    unfolding loadOBJ_Inr_iff by blast
  from cs have "scan_in_bounds attrib shapes"
    using corner_stream_resolves_iff [of attrib shapes] by blast
  moreover have "length cs = 3 * face_count shapes"
    using length_corner_stream [of attrib shapes] by (simp add: cs)
  ultimately show "scan_in_bounds attrib shapes \<and> 3 * face_count shapes < 4294967296"
    using len by simp
next
  assume r: "scan_in_bounds attrib shapes \<and> 3 * face_count shapes < 4294967296"
  then obtain cs where cs: "corner_stream attrib shapes = map Inr cs"
    using corner_stream_resolves_iff [of attrib shapes] by blast
  have "length cs = 3 * face_count shapes"
    using length_corner_stream [of attrib shapes] by (simp add: cs)
  with r cs show "\<exists>m. loadOBJ (Some (attrib, shapes)) = Inr m"
    unfolding loadOBJ_Inr_iff by simp
qed

lemma not_raises_loadOBJ: "\<not> raises (loadOBJ (Some (attrib, shapes)))"
proof -
  have "\<not> raises r" if "r \<in> set (corner_stream attrib shapes)" for r
    using that by (auto simp: corner_stream_def not_raises_scan_corner)
  then have "\<not> raises (sequence (corner_stream attrib shapes))"
    by (rule not_raises_sequence)
  then show ?thesis
    unfolding loadOBJ_eq by (rule not_raises_and_then) (rule not_raises_make_mesh)
qed

lemma corner_stream_member:
  assumes "Inr c \<in> set (corner_stream attrib shapes)"
  shows "\<exists>idx. corner attrib idx = Inr c"
proof -
  from assms obtain shape k where "scan_corner attrib shape k = Inr c"
    by (auto simp: corner_stream_def)
  then show ?thesis
    by (auto simp: scan_corner_def and_then_Inr_iff)
qed

lemma loadOBJ_vertex_resolved:
  assumes "loadOBJ (Some (attrib, shapes)) = Inr m" "v \<in> set (Mesh.vertices m)"
  shows "\<exists>idx. corner attrib idx = Inr v"
proof -
  from assms(1) obtain cs where cs: "corner_stream attrib shapes = map Inr cs"
    and vs: "Mesh.vertices m = first_occurrences cs"
    unfolding loadOBJ_Inr_iff by auto
  from assms(2) have "v \<in> set cs"
    by (simp add: vs set_first_occurrences)
  then have "Inr v \<in> set (corner_stream attrib shapes)"
    by (simp add: cs)
  then show ?thesis by (rule corner_stream_member)
qed

lemma scan_in_bounds_without_normals:
  "scan_in_bounds attrib shapes \<Longrightarrow> scan_in_bounds (attrib\<lparr>normals := []\<rparr>) shapes"
  by (simp add: scan_in_bounds_def in_bounds_def)

lemma scan_in_bounds_without_texcoords:
  "scan_in_bounds attrib shapes \<Longrightarrow> scan_in_bounds (attrib\<lparr>attrib_t.texcoords := []\<rparr>) shapes"
  by (simp add: scan_in_bounds_def in_bounds_def)

subsection \<open>The loops of the flat loader\<close>

lemma corner_body_flat_eq:
  "corner_body_flat attrib shape off =
     (\<lambda>v verts. and_then (scan_corner_flat attrib shape (off + v)) (\<lambda>c. Inr (verts @ [c])))"
  by (rule ext)+ (simp add: corner_body_flat_def scan_corner_flat_def and_then_assoc)

lemma corner_loop_flat:
  "for_each [0..<3] (corner_body_flat attrib shape off) verts =
     and_then (sequence [scan_corner_flat attrib shape off, scan_corner_flat attrib shape (off + 1),
                         scan_corner_flat attrib shape (off + 2)])
       (\<lambda>cs. Inr (verts @ cs))"
  unfolding corner_body_flat_eq for_each_fold by (simp add: upt_3 foldl_snoc)

lemma face_body_flat_triangle:
  assumes "f < length (num_face_vertices (mesh shape))" "num_face_vertices (mesh shape) ! f = 3"
  shows "face_body_flat attrib shape f (off, verts) =
     and_then (sequence [scan_corner_flat attrib shape off, scan_corner_flat attrib shape (off + 1),
                         scan_corner_flat attrib shape (off + 2)])
       (\<lambda>cs. Inr (off + 3, verts @ cs))"
  using assms by (simp add: face_body_flat_def at_def corner_loop_flat and_then_assoc)

lemma face_body_flat_non_triangle:
  assumes "f < length (num_face_vertices (mesh shape))" "num_face_vertices (mesh shape) ! f \<noteq> 3"
  shows "face_body_flat attrib shape f st = Inl (runtime_error ''Non-triangle face detected.'')"
  using assms by (cases st) (simp add: face_body_flat_def at_def)

lemma face_loop_flat:
  assumes "\<forall>f \<in> set fs. f < length (num_face_vertices (mesh shape)) \<and>
             num_face_vertices (mesh shape) ! f = 3"
  shows "for_each fs (face_body_flat attrib shape) (off, verts) =
     and_then (sequence (map (scan_corner_flat attrib shape) [off..<off + 3 * length fs]))
       (\<lambda>cs. Inr (off + 3 * length fs, verts @ cs))"
  using assms
proof (induction fs arbitrary: off verts)
  case Nil
  then show ?case by simp
next
  case (Cons f fs)
  let ?c = "scan_corner_flat attrib shape"
  from Cons.prems have f: "f < length (num_face_vertices (mesh shape))"
    "num_face_vertices (mesh shape) ! f = 3" and rest: "\<forall>f \<in> set fs.
      f < length (num_face_vertices (mesh shape)) \<and> num_face_vertices (mesh shape) ! f = 3"
    by simp_all
  show ?case
    unfolding for_each.simps face_body_flat_triangle [OF f] length_Cons upt_add_3 map_append
      sequence_append and_then_assoc
    by (cases "?c off"; cases "?c (off + 1)"; cases "?c (off + 2)";
        cases "sequence (map ?c [off + 3..<off + 3 + 3 * length fs])")
       (simp_all add: Cons.IH [OF rest] add.assoc)
qed

lemma shape_body_flat_eq:
  assumes "\<forall>fv \<in> set (num_face_vertices (mesh shape)). fv = 3"
  shows "shape_body_flat attrib shape verts =
     and_then (sequence (map (scan_corner_flat attrib shape)
                  [0..<3 * length (num_face_vertices (mesh shape))]))
       (\<lambda>cs. Inr (verts @ cs))"
proof -
  have "\<forall>f \<in> set [0..<length (num_face_vertices (mesh shape))].
      f < length (num_face_vertices (mesh shape)) \<and> num_face_vertices (mesh shape) ! f = 3"
    using assms by simp
  from face_loop_flat [OF this, of attrib 0 verts] show ?thesis
    by (simp add: shape_body_flat_def and_then_assoc)
qed

lemma shape_loop_flat:
  assumes "triangles_only shapes"
  shows "for_each shapes (shape_body_flat attrib) verts =
     and_then (sequence (corner_stream_flat attrib shapes)) (\<lambda>cs. Inr (verts @ cs))"
  using assms
proof (induction shapes arbitrary: verts)
  case Nil
  then show ?case by (simp add: corner_stream_flat_def)
next
  case (Cons shape shapes)
  from Cons.prems have here: "\<forall>fv \<in> set (num_face_vertices (mesh shape)). fv = 3"
    and rest: "triangles_only shapes"
    by (simp_all add: triangles_only_def)
  have cs: "corner_stream_flat attrib (shape # shapes) =
      map (scan_corner_flat attrib shape) [0..<3 * length (num_face_vertices (mesh shape))]
        @ corner_stream_flat attrib shapes"
    by (simp add: corner_stream_flat_def)
  let ?here = "sequence (map (scan_corner_flat attrib shape)
                  [0..<3 * length (num_face_vertices (mesh shape))])"
  show ?case
  proof (cases ?here)
    case (Inl e)
    then have "shape_body_flat attrib shape verts = Inl e"
      by (simp add: shape_body_flat_eq [OF here])
    with Inl show ?thesis
      by (simp add: cs sequence_append)
  next
    case (Inr first)
    then have "shape_body_flat attrib shape verts = Inr (verts @ first)"
      by (simp add: shape_body_flat_eq [OF here])
    with Inr show ?thesis
      by (cases "sequence (corner_stream_flat attrib shapes)")
         (simp_all add: cs sequence_append Cons.IH [OF rest])
  qed
qed

lemma loadOBJ_flat_eq:
  assumes "triangles_only shapes"
  shows "loadOBJ_flat (Some (attrib, shapes)) =
     and_then (sequence (corner_stream_flat attrib shapes)) make_mesh_flat"
  by (cases "sequence (corner_stream_flat attrib shapes)")
     (simp_all add: loadOBJ_flat_def shape_loop_flat [OF assms])

lemma face_body_flat_Inr_triangle:
  assumes "face_body_flat attrib shape f st = Inr st'"
  shows "f < length (num_face_vertices (mesh shape)) \<and> num_face_vertices (mesh shape) ! f = 3"
  using assms
  by (cases st) (auto simp: face_body_flat_def and_then_Inr_iff at_def split: if_splits)

lemma shape_body_flat_Inr_triangles:
  assumes "shape_body_flat attrib shape verts = Inr verts'"
  shows "\<forall>fv \<in> set (num_face_vertices (mesh shape)). fv = 3"
proof
  fix fv assume "fv \<in> set (num_face_vertices (mesh shape))"
  then obtain f where f: "f < length (num_face_vertices (mesh shape))"
    "num_face_vertices (mesh shape) ! f = fv"
    by (auto simp: in_set_conv_nth)
  from assms obtain r where
    "for_each [0..<length (num_face_vertices (mesh shape))] (face_body_flat attrib shape) (0, verts) = Inr r"
    by (auto simp: shape_body_flat_def and_then_Inr_iff)
  from for_each_Inr_member [OF this, of f] f(1)
  obtain s1 s2 where "face_body_flat attrib shape f s1 = Inr s2" by auto
  from face_body_flat_Inr_triangle [OF this] f(2) show "fv = 3" by simp
qed

lemma loadOBJ_flat_Inr_triangles:
  assumes "loadOBJ_flat (Some (attrib, shapes)) = Inr m"
  shows "triangles_only shapes"
  unfolding triangles_only_def
proof
  fix shape assume mem: "shape \<in> set shapes"
  from assms obtain verts where "for_each shapes (shape_body_flat attrib) [] = Inr verts"
    by (auto simp: loadOBJ_flat_def and_then_Inr_iff)
  from for_each_Inr_member [OF this mem]
  obtain s1 s2 where "shape_body_flat attrib shape s1 = Inr s2" by auto
  then show "\<forall>fv \<in> set (num_face_vertices (mesh shape)). fv = 3"
    by (rule shape_body_flat_Inr_triangles)
qed

lemma length_corner_stream_flat:
  "length (corner_stream_flat attrib shapes) = 3 * face_count shapes"
  by (induction shapes) (simp_all add: corner_stream_flat_def face_count_def)

subsection \<open>What the flat loader returns and raises\<close>

lemma make_mesh_flat_Inr_iff:
  "make_mesh_flat verts = Inr m \<longleftrightarrow>
     length verts < 4294967296 \<and>
     m = \<lparr>Mesh_flat.vertices = verts, vertexCount = of_nat (length verts)\<rparr>"
  by (auto simp: make_mesh_flat_def Let_def unat_of_nat_32_less not_le)

lemma loadOBJ_flat_Inr_iff:
  "loadOBJ_flat (Some (attrib, shapes)) = Inr m \<longleftrightarrow>
     triangles_only shapes \<and>
     (\<exists>cs. corner_stream_flat attrib shapes = map Inr cs \<and> length cs < 4294967296 \<and>
        m = \<lparr>Mesh_flat.vertices = cs, vertexCount = of_nat (length cs)\<rparr>)"
proof (cases "triangles_only shapes")
  case True
  then show ?thesis
    by (auto simp: loadOBJ_flat_eq and_then_Inr_iff sequence_Inr_iff make_mesh_flat_Inr_iff)
next
  case False
  then show ?thesis
    using loadOBJ_flat_Inr_triangles [of attrib shapes m] by auto
qed

lemma corner_stream_flat_resolves_iff:
  "(\<exists>cs. corner_stream_flat attrib shapes = map Inr cs) \<longleftrightarrow> scan_in_bounds attrib shapes"
proof -
  have "(\<forall>r \<in> set (corner_stream_flat attrib shapes). \<exists>v. r = Inr v) \<longleftrightarrow>
      (\<forall>shape \<in> set shapes. \<forall>k \<in> set [0..<3 * length (num_face_vertices (mesh shape))].
         \<exists>v. scan_corner_flat attrib shape k = Inr v)"
    by (auto simp: corner_stream_flat_def)
  then show ?thesis
    by (simp only: ex_map_Inr_iff scan_in_bounds_def scan_corner_flat_Inr_iff)
qed

lemma loadOBJ_flat_returns_iff:
  "(\<exists>m. loadOBJ_flat (Some (attrib, shapes)) = Inr m) \<longleftrightarrow>
     triangles_only shapes \<and> scan_in_bounds attrib shapes \<and> 3 * face_count shapes < 4294967296"
proof
  assume "\<exists>m. loadOBJ_flat (Some (attrib, shapes)) = Inr m"
  then obtain cs where tri: "triangles_only shapes"
    and cs: "corner_stream_flat attrib shapes = map Inr cs"
    and len: "length cs < 4294967296"
    unfolding loadOBJ_flat_Inr_iff by blast
  from cs have "scan_in_bounds attrib shapes"
    using corner_stream_flat_resolves_iff [of attrib shapes] by blast
  moreover have "length cs = 3 * face_count shapes"
    using length_corner_stream_flat [of attrib shapes] by (simp add: cs)
  ultimately show "triangles_only shapes \<and> scan_in_bounds attrib shapes \<and>
      3 * face_count shapes < 4294967296"
    using len tri by simp
next
  assume r: "triangles_only shapes \<and> scan_in_bounds attrib shapes \<and>
      3 * face_count shapes < 4294967296"
  then obtain cs where cs: "corner_stream_flat attrib shapes = map Inr cs"
    using corner_stream_flat_resolves_iff [of attrib shapes] by blast
  have "length cs = 3 * face_count shapes"
    using length_corner_stream_flat [of attrib shapes] by (simp add: cs)
  with r cs show "\<exists>m. loadOBJ_flat (Some (attrib, shapes)) = Inr m"
    unfolding loadOBJ_flat_Inr_iff by simp
qed

lemma corner_stream_flat_member:
  assumes "Inr c \<in> set (corner_stream_flat attrib shapes)"
  shows "\<exists>idx. corner_flat attrib idx = Inr c"
proof -
  from assms obtain shape k where "scan_corner_flat attrib shape k = Inr c"
    by (auto simp: corner_stream_flat_def)
  then show ?thesis
    by (auto simp: scan_corner_flat_def and_then_Inr_iff)
qed

lemma loadOBJ_flat_vertex_resolved:
  assumes "loadOBJ_flat (Some (attrib, shapes)) = Inr m" "v \<in> set (Mesh_flat.vertices m)"
  shows "\<exists>idx. corner_flat attrib idx = Inr v"
proof -
  from assms(1) obtain cs where cs: "corner_stream_flat attrib shapes = map Inr cs"
    and vs: "Mesh_flat.vertices m = cs"
    unfolding loadOBJ_flat_Inr_iff by auto
  from assms(2) have "Inr v \<in> set (corner_stream_flat attrib shapes)"
    by (simp add: cs vs)
  then show ?thesis by (rule corner_stream_flat_member)
qed

lemma face_body_flat_message:
  assumes "face_body_flat attrib shape f st = Inl (runtime_error msg)"
  shows "msg = ''Non-triangle face detected.''"
proof -
  obtain off verts where st: "st = (off, verts)" by (cases st)
  show ?thesis
  proof (cases "f < length (num_face_vertices (mesh shape))")
    case False
    with assms show ?thesis
      by (simp add: st face_body_flat_def at_def)
  next
    case True
    show ?thesis
    proof (cases "num_face_vertices (mesh shape) ! f = 3")
      case False
      with True assms show ?thesis
        by (simp add: face_body_flat_non_triangle)
    next
      case three: True
      let ?loop = "for_each [0..<3] (corner_body_flat attrib shape off) verts"
      from assms True three have "and_then ?loop (\<lambda>verts'. Inr (off + 3, verts')) = Inl (runtime_error msg)"
        by (simp add: st face_body_flat_def at_def)
      then have "?loop = Inl (runtime_error msg)"
        by (cases ?loop) simp_all
      from for_each_Inl [OF this] obtain v verts1 where
        "corner_body_flat attrib shape off v verts1 = Inl (runtime_error msg)" by blast
      with not_raises_corner_body_flat [of attrib shape off v verts1] show ?thesis
        by simp
    qed
  qed
qed

lemma shape_body_flat_message:
  assumes "shape_body_flat attrib shape verts = Inl (runtime_error msg)"
  shows "msg = ''Non-triangle face detected.''"
proof -
  let ?loop = "for_each [0..<length (num_face_vertices (mesh shape))]
      (face_body_flat attrib shape) (0, verts)"
  from assms have "?loop = Inl (runtime_error msg)"
    by (cases ?loop) (simp_all add: shape_body_flat_def split: prod.splits)
  from for_each_Inl [OF this] obtain f st where
    "face_body_flat attrib shape f st = Inl (runtime_error msg)" by blast
  then show ?thesis by (rule face_body_flat_message)
qed

lemma loadOBJ_flat_message:
  assumes "loadOBJ_flat (Some (attrib, shapes)) = Inl (runtime_error msg)"
  shows "msg = ''Non-triangle face detected.''"
proof -
  let ?loop = "for_each shapes (shape_body_flat attrib) []"
  show ?thesis
  proof (cases ?loop)
    case (Inl e)
    with assms have "?loop = Inl (runtime_error msg)"
      by (simp add: loadOBJ_flat_def)
    from for_each_Inl [OF this] obtain shape verts where
      "shape_body_flat attrib shape verts = Inl (runtime_error msg)" by blast
    then show ?thesis by (rule shape_body_flat_message)
  next
    case (Inr verts)
    with assms have "make_mesh_flat verts = Inl (runtime_error msg)"
      by (simp add: loadOBJ_flat_def)
    then show ?thesis
      by (simp add: make_mesh_flat_def Let_def split: if_splits)
  qed
qed

lemma loadOBJ_flat_raises_non_triangle:
  assumes "raises (loadOBJ_flat (Some (attrib, shapes)))"
  shows "\<not> triangles_only shapes"
proof
  assume tri: "triangles_only shapes"
  have "\<not> raises r" if "r \<in> set (corner_stream_flat attrib shapes)" for r
    using that by (auto simp: corner_stream_flat_def not_raises_scan_corner_flat)
  then have "\<not> raises (sequence (corner_stream_flat attrib shapes))"
    by (rule not_raises_sequence)
  then have "\<not> raises (loadOBJ_flat (Some (attrib, shapes)))"
    unfolding loadOBJ_flat_eq [OF tri]
    by (rule not_raises_and_then) (rule not_raises_make_mesh_flat)
  with assms show False by simp
qed

subsection \<open>The sample inputs, run\<close>

lemma quad_loads: "loadOBJ (Some (quad_attrib, quad_shapes)) = Inr quad_mesh"
  by code_simp

lemma quad_loads_flat: "loadOBJ_flat (Some (quad_attrib, quad_shapes)) = Inr quad_mesh_flat"
  by code_simp

lemma aba_loads: "loadOBJ (Some (aba_attrib, aba_shapes)) = Inr aba_mesh"
  by code_simp

lemma aba_stream:
  "corner_stream aba_attrib aba_shapes =
     [Inr (bare_vertex 0 0 0 0x3F800000), Inr (bare_vertex 0x3F800000 0 0 0x3F800000),
      Inr (bare_vertex 0 0 0 0x3F800000)]"
  by code_simp

lemma tri_loads: "loadOBJ (Some (tri_attrib, tri_shapes)) = Inr tri_mesh"
  by code_simp

lemma tri_loads_flat: "loadOBJ_flat (Some (tri_attrib, tri_shapes)) = Inr tri_mesh_flat"
  by code_simp


lemma mixed_prefix:
  "for_each [0..<1] (face_body_flat quad_attrib mixed_shape) (0, []) =
     Inr (3, [quad_vertex 0 0, quad_vertex 0x3F800000 0, quad_vertex 0x3F800000 0x3F800000])"
  by code_simp

lemma mixed_loads_flat:
  "loadOBJ_flat (Some (quad_attrib, [mixed_shape])) =
     Inl (runtime_error ''Non-triangle face detected.'')"
  by code_simp


lemma aba_in_bounds: "scan_in_bounds aba_attrib aba_shapes"
  by code_simp


lemma oob_normal_loads_flat:
  "loadOBJ_flat (Some (quad_attrib, oob_normal_shapes)) = Inl (UB out_of_bounds_read)"
  by code_simp

section \<open>The claims\<close>

text \<open>
  C1. Whenever the indexed loader returns a mesh, replaying its index sequence
  against its vertex sequence, index by index and in order, gives exactly the
  resolved corner values in the order the corners were scanned.
\<close>

theorem replay_reconstructs_corner_stream:
  assumes "loadOBJ (Some (attrib, shapes)) = Inr m"
  shows "replay m = corner_stream attrib shapes"
proof -
  from assms obtain cs where cs: "corner_stream attrib shapes = map Inr cs"
    and len: "length cs < 4294967296"
    and v: "Mesh.vertices m = first_occurrences cs"
    and i: "Mesh.indices m = map (\<lambda>c. of_nat (index_of (first_occurrences cs) c)) cs"
    unfolding loadOBJ_Inr_iff by auto
  from len v i have "replay m = map Inr cs"
    by (rule replay_numbered)
  with cs show ?thesis by simp
qed

theorem replay_reconstructs_corner_stream_witness:
  "loadOBJ (Some (quad_attrib, quad_shapes)) = Inr quad_mesh \<and>
   replay quad_mesh = corner_stream quad_attrib quad_shapes"
  using replay_reconstructs_corner_stream [OF quad_loads] quad_loads by simp

text \<open>
  C2. Deduplication is global and keeps the order of first occurrence. For every
  input whose scanned corners lie within the source arrays and number fewer than
  \<open>2^32\<close>, the indexed loader returns a mesh, and in it: the vertex sequence is the
  corner stream with every repetition removed, in first-occurrence order, and holds
  no value twice; two corners with the same resolved value, wherever they are in the
  stream, get the same index; a corner whose value was not seen before gets as its
  index the number of distinct values before it; and a stream \<open>A, B, A\<close> with \<open>A \<noteq> B\<close>
  gives the vertices \<open>[A, B]\<close> and the indices \<open>[0, 1, 0]\<close>.
\<close>

theorem deduplication_is_global:
  assumes "scan_in_bounds attrib shapes"
    and "3 * face_count shapes < 4294967296"
  shows "\<exists>m. loadOBJ (Some (attrib, shapes)) = Inr m \<and>
         map Inr (Mesh.vertices m) = first_occurrences (corner_stream attrib shapes) \<and>
         distinct (Mesh.vertices m) \<and>
         length (Mesh.indices m) = length (corner_stream attrib shapes) \<and>
         (\<forall>j k. j < k \<and> k < length (corner_stream attrib shapes) \<and>
                corner_stream attrib shapes ! j = corner_stream attrib shapes ! k \<longrightarrow>
                Mesh.indices m ! k = Mesh.indices m ! j) \<and>
         (\<forall>k < length (corner_stream attrib shapes).
            corner_stream attrib shapes ! k \<notin> set (take k (corner_stream attrib shapes)) \<longrightarrow>
            unat (Mesh.indices m ! k) =
              length (first_occurrences (take k (corner_stream attrib shapes)))) \<and>
         (\<forall>A B. corner_stream attrib shapes = [Inr A, Inr B, Inr A] \<and> A \<noteq> B \<longrightarrow>
            Mesh.vertices m = [A, B] \<and> Mesh.indices m = [0, 1, 0])"
proof -
  from assms obtain m where m: "loadOBJ (Some (attrib, shapes)) = Inr m"
    using loadOBJ_returns_iff [of attrib shapes] by blast
  then obtain cs where cs: "corner_stream attrib shapes = map Inr cs"
    and len: "length cs < 4294967296"
    and v: "Mesh.vertices m = first_occurrences cs"
    and i: "Mesh.indices m = map (\<lambda>c. of_nat (index_of (first_occurrences cs) c)) cs"
    unfolding loadOBJ_Inr_iff by auto
  have order: "map Inr (Mesh.vertices m) = first_occurrences (corner_stream attrib shapes)"
    by (simp add: v cs first_occurrences_map_Inr)
  have dist: "distinct (Mesh.vertices m)"
    by (simp add: v distinct_first_occurrences)
  have count: "length (Mesh.indices m) = length (corner_stream attrib shapes)"
    by (simp add: i cs)
  have same: "Mesh.indices m ! k = Mesh.indices m ! j"
    if "j < k" "k < length (corner_stream attrib shapes)"
      "corner_stream attrib shapes ! j = corner_stream attrib shapes ! k" for j k
    using that by (simp add: cs i)
  have fresh: "unat (Mesh.indices m ! k) =
      length (first_occurrences (take k (corner_stream attrib shapes)))"
    if k: "k < length (corner_stream attrib shapes)"
      and new: "corner_stream attrib shapes ! k \<notin> set (take k (corner_stream attrib shapes))"
    for k
  proof -
    from k have k': "k < length cs" by (simp add: cs)
    with new have new': "cs ! k \<notin> set (take k cs)"
      by (auto simp: cs take_map)
    have "length (first_occurrences (take k cs)) \<le> length (take k cs)"
      by (rule length_first_occurrences)
    with k' len have "length (first_occurrences (take k cs)) < 4294967296" by simp
    then have "unat (of_nat (length (first_occurrences (take k cs))) :: 32 word)
        = length (first_occurrences (take k cs))"
      by (rule unat_of_nat_32)
    moreover have "length (first_occurrences (take k (map Inr cs) :: (failure + Vertex) list))
        = length (first_occurrences (take k cs))"
      by (simp add: take_map first_occurrences_map_Inr)
    ultimately show ?thesis
      using k' by (simp add: i cs index_of_first_occurrences_new [OF k' new'])
  qed
  have aba: "Mesh.vertices m = [A, B] \<and> Mesh.indices m = [0, 1, 0]"
    if "corner_stream attrib shapes = [Inr A, Inr B, Inr A]" "A \<noteq> B" for A B
  proof -
    from that(1) have "cs = [A, B, A]"
      unfolding cs by (auto simp: map_eq_Cons_conv)
    with that(2) show ?thesis
      by (simp add: v i first_occurrences_def)
  qed
  from m order dist count same fresh aba show ?thesis by blast
qed

theorem deduplication_is_global_witness:
  "scan_in_bounds aba_attrib aba_shapes \<and>
   3 * face_count aba_shapes < 4294967296 \<and>
   loadOBJ (Some (aba_attrib, aba_shapes)) = Inr aba_mesh \<and>
   corner_stream aba_attrib aba_shapes =
     [Inr (bare_vertex 0 0 0 0x3F800000), Inr (bare_vertex 0x3F800000 0 0 0x3F800000),
      Inr (bare_vertex 0 0 0 0x3F800000)] \<and>
   bare_vertex 0 0 0 0x3F800000 \<noteq> bare_vertex 0x3F800000 0 0 0x3F800000 \<and>
   length (Mesh.vertices aba_mesh) = 2 \<and> Mesh.indices aba_mesh = [0, 1, 0]"
proof -
  have small: "3 * face_count aba_shapes < 4294967296"
    by (simp add: face_count_def aba_shapes_def)
  have ne: "bare_vertex 0 0 0 0x3F800000 \<noteq> bare_vertex 0x3F800000 0 0 0x3F800000"
    by (simp add: bare_vertex_def)
  from deduplication_is_global [OF aba_in_bounds small]
  obtain m where m: "loadOBJ (Some (aba_attrib, aba_shapes)) = Inr m"
    and aba: "\<forall>A B. corner_stream aba_attrib aba_shapes = [Inr A, Inr B, Inr A] \<and> A \<noteq> B \<longrightarrow>
            Mesh.vertices m = [A, B] \<and> Mesh.indices m = [0, 1, 0]"
    by blast
  from aba aba_stream ne
  have "Mesh.vertices m = [bare_vertex 0 0 0 0x3F800000, bare_vertex 0x3F800000 0 0 0x3F800000]
      \<and> Mesh.indices m = [0, 1, 0]"
    by blast
  moreover from m aba_loads have "m = aba_mesh" by simp
  ultimately show ?thesis
    using aba_in_bounds small aba_loads aba_stream ne by simp
qed

text \<open>
  C3. In every mesh the indexed loader returns, every index is below the vertex
  count (and so selects a vertex of the array), the number of indices is a multiple
  of 3, and the two stored counts are the lengths of the two arrays.
\<close>

theorem indices_in_range_and_triangles:
  assumes "loadOBJ (Some (attrib, shapes)) = Inr m"
  shows "(\<forall>i \<in> set (Mesh.indices m). i < Mesh.vertexCount m \<and> unat i < length (Mesh.vertices m)) \<and>
         3 dvd length (Mesh.indices m) \<and>
         unat (Mesh.vertexCount m) = length (Mesh.vertices m) \<and>
         unat (Mesh.indexCount m) = length (Mesh.indices m)"
proof -
  from assms obtain cs where cs: "corner_stream attrib shapes = map Inr cs"
    and len: "length cs < 4294967296"
    and v: "Mesh.vertices m = first_occurrences cs"
    and i: "Mesh.indices m = map (\<lambda>c. of_nat (index_of (first_occurrences cs) c)) cs"
    and vc: "Mesh.vertexCount m = of_nat (length (first_occurrences cs))"
    and ic: "Mesh.indexCount m = of_nat (length cs)"
    unfolding loadOBJ_Inr_iff by auto
  from length_first_occurrences [of cs] len
  have vlen: "length (first_occurrences cs) < 4294967296" by simp
  then have uv: "unat (Mesh.vertexCount m) = length (Mesh.vertices m)"
    by (simp add: vc v unat_of_nat_32)
  have ui: "unat (Mesh.indexCount m) = length (Mesh.indices m)"
    using len by (simp add: ic i unat_of_nat_32)
  have "length cs = 3 * face_count shapes"
    using length_corner_stream [of attrib shapes] by (simp add: cs)
  then have tri: "3 dvd length (Mesh.indices m)"
    by (simp add: i)
  have rng: "ix < Mesh.vertexCount m \<and> unat ix < length (Mesh.vertices m)"
    if "ix \<in> set (Mesh.indices m)" for ix
  proof -
    from that obtain c where c: "c \<in> set cs"
      and ix: "ix = of_nat (index_of (first_occurrences cs) c)"
      by (auto simp: i)
    from c have less: "index_of (first_occurrences cs) c < length (first_occurrences cs)"
      by (simp add: index_of_less set_first_occurrences)
    with vlen have "unat ix = index_of (first_occurrences cs) c"
      by (simp add: ix unat_of_nat_32)
    with less uv show ?thesis
      by (simp add: word_less_nat_alt v)
  qed
  from rng tri uv ui show ?thesis by blast
qed

theorem indices_in_range_and_triangles_witness:
  "loadOBJ (Some (quad_attrib, quad_shapes)) = Inr quad_mesh \<and>
   list_all (\<lambda>i. i < Mesh.vertexCount quad_mesh) (Mesh.indices quad_mesh) \<and>
   3 dvd length (Mesh.indices quad_mesh)"
  using indices_in_range_and_triangles [OF quad_loads] quad_loads by (simp add: list_all_iff)



text \<open>
  C5. When the normals array is empty, every vertex of a returned mesh has the
  loader's own fallback normal: \<open>(0, 0, 1)\<close> in the indexed loader, \<open>(0, 0, 0)\<close> in the
  flat loader. When the texture coordinate array is empty, every vertex has the
  texture coordinate \<open>(0, 0)\<close>, in both loaders. An absent array is never the cause of
  a failure: a load that returns still returns when the normals, or the texture
  coordinates, are taken away.
\<close>
theorem absent_attributes_fall_back:
  "(attrib_t.normals attrib = [] \<longrightarrow>
      (\<forall>m. loadOBJ (Some (attrib, shapes)) = Inr m \<longrightarrow>
         (\<forall>v \<in> set (Mesh.vertices m). normal v = \<lparr>vec3.x = 0, y = 0, z = 0x3F800000\<rparr>)) \<and>
      (\<forall>m. loadOBJ_flat (Some (attrib, shapes)) = Inr m \<longrightarrow>
         (\<forall>v \<in> set (Mesh_flat.vertices m). normal v = \<lparr>vec3.x = 0, y = 0, z = 0\<rparr>))) \<and>
   (attrib_t.texcoords attrib = [] \<longrightarrow>
      (\<forall>m. loadOBJ (Some (attrib, shapes)) = Inr m \<longrightarrow>
         (\<forall>v \<in> set (Mesh.vertices m). Vertex.texcoords v = \<lparr>vec2.x = 0, y = 0\<rparr>)) \<and>
      (\<forall>m. loadOBJ_flat (Some (attrib, shapes)) = Inr m \<longrightarrow>
         (\<forall>v \<in> set (Mesh_flat.vertices m). Vertex.texcoords v = \<lparr>vec2.x = 0, y = 0\<rparr>))) \<and>
   ((\<exists>m. loadOBJ (Some (attrib, shapes)) = Inr m) \<longrightarrow>
      (\<exists>m. loadOBJ (Some (attrib\<lparr>normals := []\<rparr>, shapes)) = Inr m) \<and>
      (\<exists>m. loadOBJ (Some (attrib\<lparr>attrib_t.texcoords := []\<rparr>, shapes)) = Inr m)) \<and>
   ((\<exists>m. loadOBJ_flat (Some (attrib, shapes)) = Inr m) \<longrightarrow>
      (\<exists>m. loadOBJ_flat (Some (attrib\<lparr>normals := []\<rparr>, shapes)) = Inr m) \<and>
      (\<exists>m. loadOBJ_flat (Some (attrib\<lparr>attrib_t.texcoords := []\<rparr>, shapes)) = Inr m))"
proof -
  have n1: "normal v = \<lparr>vec3.x = 0, y = 0, z = 0x3F800000\<rparr>"
    if "attrib_t.normals attrib = []" "loadOBJ (Some (attrib, shapes)) = Inr m"
      "v \<in> set (Mesh.vertices m)" for m v
    using loadOBJ_vertex_resolved [OF that(2,3)] that(1) by (auto simp: corner_Inr_iff)
  have n2: "normal v = \<lparr>vec3.x = 0, y = 0, z = 0\<rparr>"
    if "attrib_t.normals attrib = []" "loadOBJ_flat (Some (attrib, shapes)) = Inr m"
      "v \<in> set (Mesh_flat.vertices m)" for m v
    using loadOBJ_flat_vertex_resolved [OF that(2,3)] that(1) by (auto simp: corner_flat_Inr_iff)
  have t1: "Vertex.texcoords v = \<lparr>vec2.x = 0, y = 0\<rparr>"
    if "attrib_t.texcoords attrib = []" "loadOBJ (Some (attrib, shapes)) = Inr m"
      "v \<in> set (Mesh.vertices m)" for m v
    using loadOBJ_vertex_resolved [OF that(2,3)] that(1) by (auto simp: corner_Inr_iff)
  have t2: "Vertex.texcoords v = \<lparr>vec2.x = 0, y = 0\<rparr>"
    if "attrib_t.texcoords attrib = []" "loadOBJ_flat (Some (attrib, shapes)) = Inr m"
      "v \<in> set (Mesh_flat.vertices m)" for m v
    using loadOBJ_flat_vertex_resolved [OF that(2,3)] that(1) by (auto simp: corner_flat_Inr_iff)
  have r1: "(\<exists>m. loadOBJ (Some (attrib\<lparr>normals := []\<rparr>, shapes)) = Inr m) \<and>
      (\<exists>m. loadOBJ (Some (attrib\<lparr>attrib_t.texcoords := []\<rparr>, shapes)) = Inr m)"
    if "\<exists>m. loadOBJ (Some (attrib, shapes)) = Inr m"
    using that scan_in_bounds_without_normals [of attrib shapes]
      scan_in_bounds_without_texcoords [of attrib shapes]
    by (simp add: loadOBJ_returns_iff)
  have r2: "(\<exists>m. loadOBJ_flat (Some (attrib\<lparr>normals := []\<rparr>, shapes)) = Inr m) \<and>
      (\<exists>m. loadOBJ_flat (Some (attrib\<lparr>attrib_t.texcoords := []\<rparr>, shapes)) = Inr m)"
    if "\<exists>m. loadOBJ_flat (Some (attrib, shapes)) = Inr m"
    using that scan_in_bounds_without_normals [of attrib shapes]
      scan_in_bounds_without_texcoords [of attrib shapes]
    by (simp add: loadOBJ_flat_returns_iff)
  from n1 n2 t1 t2 r1 r2 show ?thesis by blast
qed

theorem absent_attributes_fall_back_witness:
  "attrib_t.normals tri_attrib = [] \<and> attrib_t.texcoords tri_attrib = [] \<and>
   loadOBJ (Some (tri_attrib, tri_shapes)) = Inr tri_mesh \<and>
   list_all (\<lambda>v. normal v = \<lparr>vec3.x = 0, y = 0, z = 0x3F800000\<rparr> \<and>
                 Vertex.texcoords v = \<lparr>vec2.x = 0, y = 0\<rparr>) (Mesh.vertices tri_mesh)"
proof -
  have e: "attrib_t.normals tri_attrib = []" "attrib_t.texcoords tri_attrib = []"
    by (simp_all add: tri_attrib_def)
  with absent_attributes_fall_back [of tri_attrib tri_shapes] tri_loads
  have "\<forall>v \<in> set (Mesh.vertices tri_mesh).
      normal v = \<lparr>vec3.x = 0, y = 0, z = 0x3F800000\<rparr> \<and>
      Vertex.texcoords v = \<lparr>vec2.x = 0, y = 0\<rparr>"
    by blast
  with e tri_loads show ?thesis by (simp add: list_all_iff)
qed

text \<open>
  C5 as written also asks that the two loaders agree on the fallback normal. They do
  not: on one triangle without normals the indexed loader gives \<open>(0, 0, 1)\<close> and the
  flat loader \<open>(0, 0, 0)\<close>.
\<close>
theorem fallback_normals_differ:
  "loadOBJ (Some (tri_attrib, tri_shapes)) = Inr tri_mesh \<and>
   loadOBJ_flat (Some (tri_attrib, tri_shapes)) = Inr tri_mesh_flat \<and>
   attrib_t.normals tri_attrib = [] \<and>
   normal (hd (Mesh.vertices tri_mesh)) = \<lparr>vec3.x = 0, y = 0, z = 0x3F800000\<rparr> \<and>
   normal (hd (Mesh_flat.vertices tri_mesh_flat)) = \<lparr>vec3.x = 0, y = 0, z = 0\<rparr> \<and>
   normal (hd (Mesh.vertices tri_mesh)) \<noteq> normal (hd (Mesh_flat.vertices tri_mesh_flat))"
proof -
  have "attrib_t.normals tri_attrib = []"
    by (simp add: tri_attrib_def)
  moreover have "normal (hd (Mesh.vertices tri_mesh)) = \<lparr>vec3.x = 0, y = 0, z = 0x3F800000\<rparr>"
    by (simp add: tri_mesh_def bare_vertex_def)
  moreover have "normal (hd (Mesh_flat.vertices tri_mesh_flat)) = \<lparr>vec3.x = 0, y = 0, z = 0\<rparr>"
    by (simp add: tri_mesh_flat_def bare_vertex_def)
  ultimately show ?thesis
    using tri_loads tri_loads_flat by simp
qed

text \<open>
  C6. The flat loader is the strict one: it checks the size of every face. If any
  face of the input has a corner count other than 3, the loader never returns a
  mesh (the face is neither skipped nor cut to three corners); and once the scan has
  come through everything before that face, the loader raises
  \<open>std::runtime_error("Non-triangle face detected.")\<close>.
\<close>
theorem non_triangle_face_rejected:
  assumes "f < length (num_face_vertices (mesh shape))"
    and "num_face_vertices (mesh shape) ! f \<noteq> 3"
  shows "(\<forall>m. loadOBJ_flat (Some (attrib, before @ shape # after)) \<noteq> Inr m) \<and>
         (\<forall>verts st. for_each before (shape_body_flat attrib) [] = Inr verts \<and>
                      for_each [0..<f] (face_body_flat attrib shape) (0, verts) = Inr st \<longrightarrow>
            loadOBJ_flat (Some (attrib, before @ shape # after)) =
              Inl (runtime_error ''Non-triangle face detected.''))"
proof (intro conjI allI impI)
  fix m
  show "loadOBJ_flat (Some (attrib, before @ shape # after)) \<noteq> Inr m"
  proof
    assume "loadOBJ_flat (Some (attrib, before @ shape # after)) = Inr m"
    then have "triangles_only (before @ shape # after)"
      by (rule loadOBJ_flat_Inr_triangles)
    then have "num_face_vertices (mesh shape) ! f = 3"
      using assms(1) by (simp add: triangles_only_def)
    with assms(2) show False by simp
  qed
next
  fix verts st
  assume pre: "for_each before (shape_body_flat attrib) [] = Inr verts \<and>
      for_each [0..<f] (face_body_flat attrib shape) (0, verts) = Inr st"
  have "face_body_flat attrib shape f st = Inl (runtime_error ''Non-triangle face detected.'')"
    using assms by (rule face_body_flat_non_triangle)
  with pre have "for_each ([0..<f] @ f # [Suc f..<length (num_face_vertices (mesh shape))])
      (face_body_flat attrib shape) (0, verts) = Inl (runtime_error ''Non-triangle face detected.'')"
    by (intro for_each_prefix_fails [of _ _ _ st]) simp_all
  then have "shape_body_flat attrib shape verts = Inl (runtime_error ''Non-triangle face detected.'')"
    by (simp add: shape_body_flat_def upt_split [OF assms(1), symmetric])
  with pre have "for_each (before @ shape # after) (shape_body_flat attrib) [] =
      Inl (runtime_error ''Non-triangle face detected.'')"
    by (intro for_each_prefix_fails [of _ _ _ verts]) simp_all
  then show "loadOBJ_flat (Some (attrib, before @ shape # after)) =
      Inl (runtime_error ''Non-triangle face detected.'')"
    by (simp add: loadOBJ_flat_def)
qed

theorem non_triangle_face_rejected_witness:
  "1 < length (num_face_vertices (mesh mixed_shape)) \<and>
   num_face_vertices (mesh mixed_shape) ! 1 = 4 \<and>
   loadOBJ_flat (Some (quad_attrib, [mixed_shape])) =
     Inl (runtime_error ''Non-triangle face detected.'')"
proof -
  have len: "1 < length (num_face_vertices (mesh mixed_shape))"
    and four: "num_face_vertices (mesh mixed_shape) ! 1 = 4"
    by (simp_all add: mixed_shape_def)
  from four have ne: "num_face_vertices (mesh mixed_shape) ! 1 \<noteq> 3" by simp
  have "for_each [] (shape_body_flat quad_attrib) [] = Inr []" by simp
  with non_triangle_face_rejected [OF len ne, of quad_attrib "[]" "[]"] mixed_prefix
  have "loadOBJ_flat (Some (quad_attrib, [mixed_shape])) =
      Inl (runtime_error ''Non-triangle face detected.'')"
    by simp
  with len four show ?thesis by simp
qed

text \<open>
  C7. \<open>Vertex::operator==\<close>, the equality the map of seen vertices is searched with,
  holds exactly when all eight components (three of the position, three of the
  normal, two of the texture coordinate) have the same bit pattern. There is no
  tolerance: two vertices that differ in any bit are both kept, under the indices
  \<open>0\<close> and \<open>1\<close>.
\<close>
theorem vertex_equality_is_bitwise:
  "(operator_eq a b \<longleftrightarrow>
      vec3.x (position a) = vec3.x (position b) \<and> vec3.y (position a) = vec3.y (position b) \<and>
      vec3.z (position a) = vec3.z (position b) \<and>
      vec3.x (normal a) = vec3.x (normal b) \<and> vec3.y (normal a) = vec3.y (normal b) \<and>
      vec3.z (normal a) = vec3.z (normal b) \<and>
      vec2.x (Vertex.texcoords a) = vec2.x (Vertex.texcoords b) \<and>
      vec2.y (Vertex.texcoords a) = vec2.y (Vertex.texcoords b)) \<and>
   (\<not> operator_eq a b \<longrightarrow>
      fst (add_corner b (add_corner a ([], [], []))) = [a, b] \<and>
      fst (snd (add_corner b (add_corner a ([], [], [])))) = [0, 1])"
  using Vertex_eq_components [of a b] by (simp add: operator_eq_iff add_corner_two)

theorem vertex_equality_is_bitwise_witness:
  "\<not> operator_eq plus_zero_vertex minus_zero_vertex \<and>
   fst (add_corner minus_zero_vertex (add_corner plus_zero_vertex ([], [], [])))
     = [plus_zero_vertex, minus_zero_vertex]"
proof -
  have "vec3.x (position plus_zero_vertex) \<noteq> vec3.x (position minus_zero_vertex)"
    by (simp add: plus_zero_vertex_def minus_zero_vertex_def bare_vertex_def)
  with vertex_equality_is_bitwise [of plus_zero_vertex minus_zero_vertex]
  show ?thesis by blast
qed




text \<open>
  C9. A file that cannot be parsed ends either load with \<open>std::runtime_error\<close>, before
  anything is built. Once the file is parsed the indexed loader raises nothing, and
  the flat loader raises only \<open>"Non-triangle face detected."\<close>, and only when some face
  is not a triangle; with such a face it returns no mesh.
\<close>

theorem failing_load_returns_no_mesh:
  "loadOBJ None = Inl (runtime_error ''Failed to load OBJ'') \<and>
   loadOBJ_flat None = Inl (runtime_error ''Failed to load OBJ file.'') \<and>
   \<not> raises (loadOBJ (Some (attrib, shapes))) \<and>
   (\<not> triangles_only shapes \<longrightarrow> (\<forall>m. loadOBJ_flat (Some (attrib, shapes)) \<noteq> Inr m)) \<and>
   (raises (loadOBJ_flat (Some (attrib, shapes))) \<longrightarrow>
      \<not> triangles_only shapes \<and>
      loadOBJ_flat (Some (attrib, shapes)) = Inl (runtime_error ''Non-triangle face detected.''))"
proof -
  have parse: "loadOBJ None = Inl (runtime_error ''Failed to load OBJ'')"
    "loadOBJ_flat None = Inl (runtime_error ''Failed to load OBJ file.'')"
    by (simp_all add: loadOBJ_def loadOBJ_flat_def)
  have strict: "loadOBJ_flat (Some (attrib, shapes)) \<noteq> Inr m" if "\<not> triangles_only shapes" for m
    using that loadOBJ_flat_Inr_triangles [of attrib shapes m] by blast
  have thrown: "\<not> triangles_only shapes \<and>
      loadOBJ_flat (Some (attrib, shapes)) = Inl (runtime_error ''Non-triangle face detected.'')"
    if r: "raises (loadOBJ_flat (Some (attrib, shapes)))"
  proof -
    from r obtain msg where "loadOBJ_flat (Some (attrib, shapes)) = Inl (runtime_error msg)"
      unfolding raises_iff by blast
    with loadOBJ_flat_message [OF this] loadOBJ_flat_raises_non_triangle [OF r]
    show ?thesis by simp
  qed
  have quiet: "\<not> raises (loadOBJ (Some (attrib, shapes)))"
    by (rule not_raises_loadOBJ)
  from parse quiet strict thrown show ?thesis by blast
qed

theorem failing_load_returns_no_mesh_witness:
  "raises (loadOBJ_flat (Some (quad_attrib, [mixed_shape]))) \<and>
   \<not> triangles_only [mixed_shape] \<and>
   loadOBJ_flat (Some (quad_attrib, [mixed_shape])) =
     Inl (runtime_error ''Non-triangle face detected.'') \<and>
   loadOBJ None = Inl (runtime_error ''Failed to load OBJ'')"
proof -
  have r: "raises (loadOBJ_flat (Some (quad_attrib, [mixed_shape])))"
    by (simp add: mixed_loads_flat)
  with failing_load_returns_no_mesh [where attrib = quad_attrib and shapes = "[mixed_shape]"]
  have "\<not> triangles_only [mixed_shape]" "loadOBJ None = Inl (runtime_error ''Failed to load OBJ'')"
    by blast+
  with r mixed_loads_flat show ?thesis by simp
qed

text \<open>
  C9 as written counts an index out of range among the failures that end the load by
  raising. With a normal index \<open>5\<close> over one normal the flat loader reads outside the
  array and raises nothing.
\<close>
theorem out_of_range_normal_raises_nothing:
  "loadOBJ_flat (Some (quad_attrib, oob_normal_shapes)) = Inl (UB out_of_bounds_read) \<and>
   \<not> raises (loadOBJ_flat (Some (quad_attrib, oob_normal_shapes)))"
  by (simp add: oob_normal_loads_flat)

text \<open>
  C10. Let the normals and the texture coordinates be present, let every scanned
  corner carry a normal index and a texture coordinate index that are not negative,
  and let every face be a triangle. Then the two loaders return on the same inputs,
  and the vertex sequence of the flat loader is the replay of the mesh of the indexed
  loader.
\<close>
theorem flat_loader_is_the_expansion:
  assumes "attrib_t.normals attrib \<noteq> []" "attrib_t.texcoords attrib \<noteq> []"
    and "\<forall>shape \<in> set shapes.
           \<forall>idx \<in> set (take (3 * length (num_face_vertices (mesh shape)))
                          (mesh_t.indices (mesh shape))).
             0 \<le> sint (normal_index idx) \<and> 0 \<le> sint (texcoord_index idx)"
    and "triangles_only shapes"
  shows "(\<forall>m. loadOBJ (Some (attrib, shapes)) = Inr m \<longrightarrow>
            (\<exists>m'. loadOBJ_flat (Some (attrib, shapes)) = Inr m' \<and>
                  map Inr (Mesh_flat.vertices m') = replay m)) \<and>
         (\<forall>m'. loadOBJ_flat (Some (attrib, shapes)) = Inr m' \<longrightarrow>
            (\<exists>m. loadOBJ (Some (attrib, shapes)) = Inr m \<and>
                 replay m = map Inr (Mesh_flat.vertices m')))"
proof -
  have same: "corner_stream_flat attrib shapes = corner_stream attrib shapes"
    using assms(1-3) by (rule corner_stream_flat_eq)
  have expand: "\<exists>m'. loadOBJ_flat (Some (attrib, shapes)) = Inr m' \<and>
      map Inr (Mesh_flat.vertices m') = replay m"
    if m: "loadOBJ (Some (attrib, shapes)) = Inr m" for m
  proof -
    from m obtain cs where cs: "corner_stream attrib shapes = map Inr cs"
      and len: "length cs < 4294967296"
      and v: "Mesh.vertices m = first_occurrences cs"
      and i: "Mesh.indices m = map (\<lambda>c. of_nat (index_of (first_occurrences cs) c)) cs"
      unfolding loadOBJ_Inr_iff by auto
    have "replay m = map Inr cs"
      using len v i by (rule replay_numbered)
    moreover have "loadOBJ_flat (Some (attrib, shapes)) =
        Inr \<lparr>Mesh_flat.vertices = cs, vertexCount = of_nat (length cs)\<rparr>"
      unfolding loadOBJ_flat_Inr_iff using assms(4) cs len by (simp add: same)
    ultimately show ?thesis by simp
  qed
  have collapse: "\<exists>m. loadOBJ (Some (attrib, shapes)) = Inr m \<and>
      replay m = map Inr (Mesh_flat.vertices m')"
    if m': "loadOBJ_flat (Some (attrib, shapes)) = Inr m'" for m'
  proof -
    from m' obtain cs where cs: "corner_stream attrib shapes = map Inr cs"
      and len: "length cs < 4294967296"
      and v': "Mesh_flat.vertices m' = cs"
      unfolding loadOBJ_flat_Inr_iff same by auto
    let ?m = "\<lparr>Mesh.vertices = first_occurrences cs,
        indices = map (\<lambda>c. of_nat (index_of (first_occurrences cs) c)) cs,
        vertexCount = of_nat (length (first_occurrences cs)),
        indexCount = of_nat (length cs)\<rparr>"
    have "loadOBJ (Some (attrib, shapes)) = Inr ?m"
      unfolding loadOBJ_Inr_iff using cs len by blast
    moreover have "replay ?m = map Inr cs"
      using len by (rule replay_numbered) simp_all
    ultimately show ?thesis by (auto simp: v')
  qed
  from expand collapse show ?thesis by blast
qed

theorem flat_loader_is_the_expansion_witness:
  "attrib_t.normals quad_attrib \<noteq> [] \<and> attrib_t.texcoords quad_attrib \<noteq> [] \<and>
   triangles_only quad_shapes \<and>
   loadOBJ (Some (quad_attrib, quad_shapes)) = Inr quad_mesh \<and>
   loadOBJ_flat (Some (quad_attrib, quad_shapes)) = Inr quad_mesh_flat \<and>
   map Inr (Mesh_flat.vertices quad_mesh_flat) = replay quad_mesh"
proof -
  have ne: "attrib_t.normals quad_attrib \<noteq> []" "attrib_t.texcoords quad_attrib \<noteq> []"
    by (simp_all add: quad_attrib_def)
  have nonneg: "\<forall>shape \<in> set quad_shapes.
      \<forall>idx \<in> set (take (3 * length (num_face_vertices (mesh shape)))
                     (mesh_t.indices (mesh shape))).
        0 \<le> sint (normal_index idx) \<and> 0 \<le> sint (texcoord_index idx)"
    by (simp add: quad_shapes_def)
  have tri: "triangles_only quad_shapes"
    by (simp add: triangles_only_def quad_shapes_def)
  from flat_loader_is_the_expansion [OF ne nonneg tri] quad_loads
  obtain m' where "loadOBJ_flat (Some (quad_attrib, quad_shapes)) = Inr m'"
    and "map Inr (Mesh_flat.vertices m') = replay quad_mesh"
    by blast
  with quad_loads_flat have "map Inr (Mesh_flat.vertices quad_mesh_flat) = replay quad_mesh"
    by simp
  with ne tri quad_loads quad_loads_flat show ?thesis by simp
qed

end
